theory Spec2Isabelle
  imports Complex_Main "HOL-Library.Multiset"
begin

section \<open>Data model\<close>

text \<open>
  The game is a Phaser scene (class \<open>GameScene\<close>). Its fields are the fields of the record
  \<open>game\<close>; every method that mutates \<open>this\<close> becomes a function from \<open>game\<close> to
  \<open>game\<close>. JavaScript numbers are modelled as real numbers (positions, speeds, times in
  milliseconds) or as integers and naturals where the code only counts.

  The globals \<open>sizes\<close> and \<open>scale\<close> and the pixel sizes of the two enemy textures
  (\<open>alien\<close>, \<open>superAlien\<close>) are fields of the state as well.

  A game object handed to a callback is a record that carries its own \<open>active\<close> flag
  (Phaser clears the flag when the object is destroyed), so a stale reference is an
  argument whose flag is \<open>False\<close>. Object identity is structural equality, a Phaser
  group and the \<open>enemies\<close> array are lists, and an operation on an object acts on its
  first occurrence.
\<close>

record body =
  body_enable :: bool
  velocityX :: real
  velocityY :: real
  gravityY :: real
  allowGravity :: bool

record enemy =
  enemy_x :: real
  enemy_y :: real
  enemy_width :: real
  enemy_height :: real
  enemy_scaleX :: real
  enemy_scaleY :: real
  enemy_active :: bool
  isAlive :: bool
  row :: nat
  isSuperAlien :: bool
  lastShotTime :: real
  enemy_body :: "body option"

record bullet =
  bullet_x :: real
  bullet_y :: real
  bullet_velocityY :: real
  bullet_active :: bool

record player =
  player_x :: real
  player_y :: real
  player_width :: real
  player_height :: real
  player_scaleX :: real
  player_scaleY :: real
  player_visible :: bool
  player_active :: bool

record powerup =
  powerup_x :: real
  powerup_y :: real
  powerup_active :: bool

text \<open>
  \<open>this.time.delayedCall(delay, callback)\<close>: the closures the scene schedules that write
  to the scene. A pending call is stored with the clock value at which it falls due. (The
  third closure, in \<open>createExplosion\<close>, only destroys a particle emitter; particles, texts
  and tweens are rendering and are not part of the state.)
\<close>

datatype callback = ResetRowShooting | ResetPlayerHitProcessing

record game =
  sizes_width :: real
  sizes_height :: real
  scale :: real
  alien_width :: real
  alien_height :: real
  superAlien_width :: real
  superAlien_height :: real
  time_now :: real
  delayedCalls :: "(real \<times> callback) list"
  physicsPaused :: bool
  the_player :: "player option"
  enemies :: "enemy list"
  playerBullets :: "bullet list"
  enemyBullets :: "bullet list"
  score :: int
  lives :: int
  enemyDirection :: int
  enemySpeed :: real
  gameActive :: bool
  enemyShootTimer :: real
  playerShootTimer :: real
  rowsCanShoot :: "nat set"
  rowShooting :: "nat option"
  playerHitProcessing :: bool
  lastSpawnedRowY :: "real option"
  nextRowIndex :: nat
  lastSpawnCheckY :: "real option"
  rowLastShotTime :: "nat \<rightharpoonup> real"
  minTimeBetweenRowShots :: real
  spawnedRowCount :: nat
  powerUp :: "powerup option"
  playerDoubleShot :: bool
  powerUpEndTime :: real
  lastPowerUpSpawnRow :: nat

subsection \<open>Game parameters\<close>

definition BULLET_SPEED :: real where "BULLET_SPEED = 500"
definition ENEMY_BULLET_SPEED :: real where "ENEMY_BULLET_SPEED = 200"
definition ENEMY_DOWN_STEP :: real where "ENEMY_DOWN_STEP = 20"
definition ENEMY_SHOOT_INTERVAL :: real where "ENEMY_SHOOT_INTERVAL = 5000"
definition PLAYER_SHOOT_INTERVAL :: real where "PLAYER_SHOOT_INTERVAL = 750"
definition ENEMY_COLS :: nat where "ENEMY_COLS = 6"
definition ENEMY_SPACING :: real where "ENEMY_SPACING = 50"
definition DIFFICULTY_ENEMY_SHOOT_PERCENTAGE :: real where
  "DIFFICULTY_ENEMY_SHOOT_PERCENTAGE = 1 / 10"
definition DIFFICULTY_ENEMY_SPEED_INCREASE :: real where
  "DIFFICULTY_ENEMY_SPEED_INCREASE = 1 / 2"
definition DIFFICULTY_SUPER_ALIENS_INCREASE_AFTER_LINES :: nat where
  "DIFFICULTY_SUPER_ALIENS_INCREASE_AFTER_LINES = 5"
definition POWERUP_SPAWN_AFTER_ROWS :: nat where "POWERUP_SPAWN_AFTER_ROWS = 10"
definition POWERUP_DURATION :: real where "POWERUP_DURATION = 10000"
definition POWERUP_SIZE :: real where "POWERUP_SIZE = 20"

section \<open>Formation movement\<close>

definition edgeMargin :: real where "edgeMargin = 30"

text \<open>
  \<open>enemiesByRow\<close> is a JavaScript object keyed by the row index. \<open>for (row in obj)\<close> visits
  integer keys in ascending order, so the object is an association list kept sorted by key;
  each entry holds the alive enemies of that row in array order.
\<close>

fun pushRow :: "nat \<Rightarrow> enemy \<Rightarrow> (nat \<times> enemy list) list \<Rightarrow> (nat \<times> enemy list) list" where
  "pushRow r e [] = [(r, [e])]"
| "pushRow r e ((k, es) # m) =
     (if k = r then (k, es @ [e]) # m
      else if r < k then (r, [e]) # (k, es) # m
      else (k, es) # pushRow r e m)"

definition enemiesByRow :: "enemy list \<Rightarrow> (nat \<times> enemy list) list" where
  "enemiesByRow es = foldl (\<lambda>m e. if \<not> isAlive e then m else pushRow (row e) e m) [] es"

definition leftmostEnemy :: "enemy \<Rightarrow> enemy list \<Rightarrow> enemy" where
  "leftmostEnemy e0 rowEnemies =
     foldl (\<lambda>l e. if enemy_x e < enemy_x l then e else l) e0 rowEnemies"

definition rightmostEnemy :: "enemy \<Rightarrow> enemy list \<Rightarrow> enemy" where
  "rightmostEnemy e0 rowEnemies =
     foldl (\<lambda>r e. if enemy_x e > enemy_x r then e else r) e0 rowEnemies"

definition halfWidth :: "enemy \<Rightarrow> real" where
  "halfWidth e = (enemy_width e * enemy_scaleX e) / 2"

text \<open>
  The loop over the rows of \<open>enemiesByRow\<close> (part\_000, \<open>handleEnemyMovement\<close>). Both
  branches set \<open>shouldMoveDown\<close> and \<open>shouldReverse\<close> together and break, so the loop
  computes one flag.
\<close>

fun rowEdgeCheck :: "real \<Rightarrow> int \<Rightarrow> (nat \<times> enemy list) list \<Rightarrow> bool" where
  "rowEdgeCheck w d [] = False"
| "rowEdgeCheck w d ((r, []) # rest) = rowEdgeCheck w d rest"
| "rowEdgeCheck w d ((r, e0 # es) # rest) =
     (let l = leftmostEnemy e0 (e0 # es);
          rm = rightmostEnemy e0 (e0 # es);
          leftmostHalfWidth = halfWidth l;
          rightmostHalfWidth = halfWidth rm
      in if d = 1 \<and> enemy_x rm + rightmostHalfWidth \<ge> w - edgeMargin then True
         else if d = -1 \<and> enemy_x l - leftmostHalfWidth \<le> edgeMargin then True
         else rowEdgeCheck w d rest)"

text \<open>
  The earlier variant of the same method (part\_001) tests every alive enemy in array order.
\<close>

fun everyEnemyEdgeCheck :: "real \<Rightarrow> int \<Rightarrow> enemy list \<Rightarrow> bool" where
  "everyEnemyEdgeCheck w d [] = False"
| "everyEnemyEdgeCheck w d (e # es) =
     (if \<not> isAlive e then everyEnemyEdgeCheck w d es
      else let enemyHalfWidth = halfWidth e
           in if d = 1 \<and> enemy_x e + enemyHalfWidth \<ge> w - edgeMargin then True
              else if d = -1 \<and> enemy_x e - enemyHalfWidth \<le> edgeMargin then True
              else everyEnemyEdgeCheck w d es)"

text \<open>The body of the second loop of \<open>handleEnemyMovement\<close> (part\_000), for one enemy.\<close>

definition moveEnemy :: "bool \<Rightarrow> int \<Rightarrow> real \<Rightarrow> enemy \<Rightarrow> enemy" where
  "moveEnemy shouldMoveDown dir speed e =
     (if \<not> isAlive e then e
      else let e1 = (if shouldMoveDown then e\<lparr>enemy_y := enemy_y e + ENEMY_DOWN_STEP\<rparr> else e)
           in case enemy_body e1 of
                None \<Rightarrow> e1
              | Some b \<Rightarrow>
                  e1\<lparr>enemy_body := Some (b\<lparr>body_enable := True,
                                            velocityX := of_int dir * speed,
                                            velocityY := 0,
                                            gravityY := 0,
                                            allowGravity := False\<rparr>)\<rparr>)"

definition handleEnemyMovement :: "game \<Rightarrow> game" where
  "handleEnemyMovement s =
     (if enemies s = [] then s
      else let shouldReverse = rowEdgeCheck (sizes_width s) (enemyDirection s)
                                 (enemiesByRow (enemies s));
               shouldMoveDown = shouldReverse;
               s1 = (if shouldReverse
                     then s\<lparr>enemyDirection := enemyDirection s * (-1),
                            enemySpeed := enemySpeed s + DIFFICULTY_ENEMY_SPEED_INCREASE\<rparr>
                     else s)
           in s1\<lparr>enemies := map (moveEnemy shouldMoveDown (enemyDirection s1) (enemySpeed s1))
                               (enemies s1)\<rparr>)"

text \<open>
  The second loop of the earlier variant (part\_001). Before it writes the velocity it may
  re-align the body with the sprite (it assigns \<open>body.x\<close> and \<open>body.y\<close> and calls Phaser's
  \<open>Body.reset\<close>); the position of a body is not part of the model, so that step is the
  parameter \<open>syncBody\<close>. This variant writes the velocity of an enabled body only, and
  its \<open>hitEnemy\<close> disables a body only together with clearing \<open>isAlive\<close>.
\<close>

definition ENEMY_SPEED_INCREASE :: real where "ENEMY_SPEED_INCREASE = 2"

definition moveEnemy_part001 ::
    "(enemy \<Rightarrow> body \<Rightarrow> body) \<Rightarrow> bool \<Rightarrow> int \<Rightarrow> real \<Rightarrow> enemy \<Rightarrow> enemy" where
  "moveEnemy_part001 syncBody shouldMoveDown dir speed e =
     (if \<not> isAlive e then e
      else let e1 = (if shouldMoveDown then e\<lparr>enemy_y := enemy_y e + ENEMY_DOWN_STEP\<rparr> else e)
           in case enemy_body e1 of
                None \<Rightarrow> e1
              | Some b \<Rightarrow>
                  if body_enable b
                  then e1\<lparr>enemy_body := Some ((syncBody e1 b)\<lparr>velocityX := of_int dir * speed,
                                                            velocityY := 0,
                                                            gravityY := 0,
                                                            allowGravity := False\<rparr>)\<rparr>
                  else e1)"

definition handleEnemyMovement_part001 :: "(enemy \<Rightarrow> body \<Rightarrow> body) \<Rightarrow> game \<Rightarrow> game" where
  "handleEnemyMovement_part001 syncBody s =
     (if enemies s = [] then s
      else let shouldReverse = everyEnemyEdgeCheck (sizes_width s) (enemyDirection s) (enemies s);
               shouldMoveDown = shouldReverse;
               s1 = (if shouldReverse
                     then s\<lparr>enemyDirection := enemyDirection s * (-1),
                            enemySpeed := enemySpeed s + ENEMY_SPEED_INCREASE\<rparr>
                     else s)
           in s1\<lparr>enemies := map (moveEnemy_part001 syncBody shouldMoveDown
                                      (enemyDirection s1) (enemySpeed s1))
                               (enemies s1)\<rparr>)"

section \<open>Random choices\<close>

text \<open>
  \<open>Math.random()\<close> is an input: \<open>rnd k\<close> is the value returned by the \<open>k\<close>-th call made
  inside one method call. Its contract is \<open>0 \<le> rnd k < 1\<close>.
\<close>

definition randomOk :: "(nat \<Rightarrow> real) \<Rightarrow> bool" where
  "randomOk rnd \<longleftrightarrow> (\<forall>k. 0 \<le> rnd k \<and> rnd k < 1)"

text \<open>
  The Fisher-Yates loop
  \<^verbatim>\<open>for (let i = a.length - 1; i > 0; i--) { const j = Math.floor(Math.random() * (i + 1)); [a[i], a[j]] = [a[j], a[i]] }\<close>
  with \<open>k\<close> counting the calls of \<open>Math.random\<close>.
\<close>

fun shuffleFrom :: "(nat \<Rightarrow> real) \<Rightarrow> nat \<Rightarrow> nat \<Rightarrow> 'a list \<Rightarrow> 'a list" where
  "shuffleFrom rnd k 0 xs = xs"
| "shuffleFrom rnd k (Suc i) xs =
     (let j = nat \<lfloor>rnd k * real (Suc i + 1)\<rfloor>
      in shuffleFrom rnd (Suc k) i (xs[Suc i := xs ! j, j := xs ! Suc i]))"

definition shuffle :: "(nat \<Rightarrow> real) \<Rightarrow> 'a list \<Rightarrow> 'a list" where
  "shuffle rnd xs = shuffleFrom rnd 0 (length xs - 1) xs"

text \<open>
  \<open>Phaser.Utils.Array.GetRandom(array)\<close> reads \<open>array[Math.floor(Math.random() * length)]\<close>
  and returns \<open>null\<close> when that is undefined.
\<close>

definition GetRandom :: "real \<Rightarrow> 'a list \<Rightarrow> 'a option" where
  "GetRandom r xs =
     (let randomIndex = nat \<lfloor>r * real (length xs)\<rfloor>
      in if randomIndex < length xs then Some (xs ! randomIndex) else None)"

text \<open>\<open>Phaser.Math.Between(min, max)\<close> is \<open>Math.floor(Math.random() * (max - min + 1) + min)\<close>.\<close>

definition Between :: "real \<Rightarrow> real \<Rightarrow> real \<Rightarrow> real" where
  "Between r lo hi = of_int \<lfloor>r * (hi - lo + 1) + lo\<rfloor>"

section \<open>Session end, score\<close>

definition gameOver :: "game \<Rightarrow> game" where
  "gameOver s = s\<lparr>gameActive := False, physicsPaused := True\<rparr>"

definition updateScore :: "int \<Rightarrow> game \<Rightarrow> game" where
  "updateScore points s = s\<lparr>score := score s + points\<rparr>"

section \<open>Player\<close>

text \<open>
  \<open>pointer\<close> is \<open>Some x\<close> when the active pointer is down at \<open>x\<close>.
  \<open>Phaser.Math.Clamp(v, lo, hi)\<close> is \<open>Math.max(lo, Math.min(hi, v))\<close>.
\<close>

definition handlePlayerMovement :: "real option \<Rightarrow> game \<Rightarrow> game" where
  "handlePlayerMovement pointer s =
     (case the_player s of
        None \<Rightarrow> s
      | Some p \<Rightarrow>
          (case pointer of
             None \<Rightarrow> s
           | Some mouseX \<Rightarrow>
               let playerHalfWidth = (player_width p * player_scaleX p) / 2;
                   clampedX = max playerHalfWidth (min (sizes_width s - playerHalfWidth) mouseX)
               in s\<lparr>the_player := Some (p\<lparr>player_x := clampedX\<rparr>)\<rparr>))"

definition playerBullet :: "player \<Rightarrow> real \<Rightarrow> bullet" where
  "playerBullet p dx =
     \<lparr>bullet_x = player_x p + dx,
      bullet_y = player_y p - (player_height p * player_scaleY p) / 2 - 10,
      bullet_velocityY = - BULLET_SPEED,
      bullet_active = True\<rparr>"

definition handlePlayerShooting :: "game \<Rightarrow> game" where
  "handlePlayerShooting s =
     (case the_player s of
        None \<Rightarrow> s
      | Some p \<Rightarrow>
          let currentTime = time_now s;
              s0 = (if playerShootTimer s = 0 then s\<lparr>playerShootTimer := currentTime\<rparr> else s);
              timeSinceLastShot = currentTime - playerShootTimer s0
          in if timeSinceLastShot \<ge> PLAYER_SHOOT_INTERVAL then
               let s1 = s0\<lparr>playerShootTimer := currentTime\<rparr>;
                   maxBullets = (if playerDoubleShot s1 then 6 else 3 :: nat);
                   activeBullets = length (playerBullets s1)
               in if playerDoubleShot s1 then
                    (if activeBullets < maxBullets then
                       let s2 = s1\<lparr>playerBullets := playerBullets s1 @ [playerBullet p (-10)]\<rparr>
                       in if activeBullets + 1 < maxBullets
                          then s2\<lparr>playerBullets := playerBullets s2 @ [playerBullet p 10]\<rparr>
                          else s2
                     else s1)
                  else
                    (if activeBullets < maxBullets
                     then s1\<lparr>playerBullets := playerBullets s1 @ [playerBullet p 0]\<rparr>
                     else s1)
             else s0)"

section \<open>Enemy shooting\<close>

definition enemyBullet :: "enemy \<Rightarrow> real \<Rightarrow> bullet" where
  "enemyBullet e dx =
     (let enemyHeight = enemy_height e * enemy_scaleY e;
          bulletSpawnY = enemy_y e + (enemyHeight / 2) + 5
      in \<lparr>bullet_x = enemy_x e + dx,
          bullet_y = bulletSpawnY,
          bullet_velocityY = ENEMY_BULLET_SPEED,
          bullet_active = True\<rparr>)"

definition shootFromEnemy :: "enemy \<Rightarrow> game \<Rightarrow> game" where
  "shootFromEnemy e s =
     (if \<not> enemy_active e \<or> \<not> isAlive e then s
      else
        let s2 =
          (if isSuperAlien e then
             let s1 = (if length (enemyBullets s) < 28
                       then s\<lparr>enemyBullets := enemyBullets s @ [enemyBullet e (-10)]\<rparr>
                       else s)
             in if length (enemyBullets s1) < 29
                then s1\<lparr>enemyBullets := enemyBullets s1 @ [enemyBullet e 10]\<rparr>
                else s1
           else
             (if length (enemyBullets s) < 29
              then s\<lparr>enemyBullets := enemyBullets s @ [enemyBullet e 0]\<rparr>
              else s))
        in s2\<lparr>rowsCanShoot := rowsCanShoot s2 - {row e}\<rparr>)"

text \<open>
  The first part of \<open>handleEnemyShooting\<close>: the timer is initialised when unset, and every
  \<open>ENEMY_SHOOT_INTERVAL\<close> the eligible rows are reset to the rows with an alive enemy and
  the shooting-row lock is cleared.
\<close>

definition volleyReset :: "game \<Rightarrow> game" where
  "volleyReset s =
     (let currentTime = time_now s;
          s0 = (if enemyShootTimer s = 0
                then s\<lparr>enemyShootTimer := currentTime - ENEMY_SHOOT_INTERVAL + 1000\<rparr>
                else s);
          timeSinceLastShot = currentTime - enemyShootTimer s0
      in if timeSinceLastShot \<ge> ENEMY_SHOOT_INTERVAL
         then s0\<lparr>enemyShootTimer := currentTime,
                 rowsCanShoot := set (map row (filter isAlive (enemies s0))),
                 rowShooting := None\<rparr>
         else s0)"

definition readyToShoot :: "game \<Rightarrow> enemy \<Rightarrow> bool" where
  "readyToShoot s e =
     (if \<not> isAlive e then False
      else if \<not> enemy_active e then False
      else if row e \<notin> rowsCanShoot s then False
      else let lastShot = (case rowLastShotTime s (row e) of None \<Rightarrow> 0 | Some t \<Rightarrow> t);
               timeSinceRowShot = time_now s - lastShot
           in if timeSinceRowShot < minTimeBetweenRowShots s then False else True)"

definition enemiesReadyToShoot :: "game \<Rightarrow> enemy list" where
  "enemiesReadyToShoot s = filter (readyToShoot s) (enemies s)"

definition numEnemiesThatCanShoot :: "nat \<Rightarrow> nat" where
  "numEnemiesThatCanShoot n = max 1 (nat \<lfloor>real n * DIFFICULTY_ENEMY_SHOOT_PERCENTAGE\<rfloor>)"

text \<open>
  The enemy that fires: the shuffle consumes one random number per loop round, the choice
  among the retained enemies the next one.
\<close>

definition shootingEnemy :: "(nat \<Rightarrow> real) \<Rightarrow> enemy list \<Rightarrow> enemy option" where
  "shootingEnemy rnd ready =
     (let shuffledEnemies = shuffle rnd ready;
          enemiesToChooseFrom = take (numEnemiesThatCanShoot (length ready)) shuffledEnemies
      in GetRandom (rnd (length ready - 1)) enemiesToChooseFrom)"

text \<open>
  When \<open>GetRandom\<close> returns \<open>null\<close> the method throws at \<open>shootingEnemy.row\<close> before
  writing anything; this cannot happen for random numbers below 1.
\<close>

definition handleEnemyShooting :: "(nat \<Rightarrow> real) \<Rightarrow> game \<Rightarrow> game" where
  "handleEnemyShooting rnd s =
     (if enemies s = [] then s
      else
        let currentTime = time_now s;
            s1 = volleyReset s
        in if rowShooting s1 \<noteq> None then s1
           else
             let ready = enemiesReadyToShoot s1
             in if length ready > 0 then
                  (case shootingEnemy rnd ready of
                     None \<Rightarrow> s1
                   | Some e \<Rightarrow>
                       let s2 = s1\<lparr>rowShooting := Some (row e),
                                   rowLastShotTime := (rowLastShotTime s1)(row e \<mapsto> currentTime)\<rparr>;
                           s3 = shootFromEnemy e s2
                       in s3\<lparr>delayedCalls := delayedCalls s3 @
                              [(currentTime + minTimeBetweenRowShots s3, ResetRowShooting)]\<rparr>)
                else s1)"

definition cleanupBullets :: "game \<Rightarrow> game" where
  "cleanupBullets s =
     s\<lparr>playerBullets := filter (\<lambda>b. \<not> bullet_y b < 0) (playerBullets s),
       enemyBullets := filter (\<lambda>b. \<not> bullet_y b > sizes_height s) (enemyBullets s)\<rparr>"

section \<open>Wave spawner\<close>

text \<open>
  The \<open>superAlienPositions\<close> argument of \<open>spawnEnemyRowCentered\<close> is an array, a single
  column or \<open>undefined\<close>.
\<close>

datatype superAlienPositions = PosArray "nat list" | PosSingle nat | PosUndefined

definition newEnemy :: "game \<Rightarrow> nat \<Rightarrow> real \<Rightarrow> real \<Rightarrow> bool \<Rightarrow> enemy" where
  "newEnemy s rowIndex x y super =
     \<lparr>enemy_x = x,
      enemy_y = y,
      enemy_width = (if super then superAlien_width s else alien_width s),
      enemy_height = (if super then superAlien_height s else alien_height s),
      enemy_scaleX = scale s * (3 / 4),
      enemy_scaleY = scale s * (3 / 4),
      enemy_active = True,
      isAlive = True,
      row = rowIndex,
      isSuperAlien = super,
      lastShotTime = 0,
      enemy_body = Some \<lparr>body_enable = True, velocityX = 0, velocityY = 0,
                         gravityY = 0, allowGravity = False\<rparr>\<rparr>"

definition spawnEnemyRowCentered ::
    "real \<Rightarrow> nat \<Rightarrow> real \<Rightarrow> real \<Rightarrow> superAlienPositions \<Rightarrow> game \<Rightarrow> game" where
  "spawnEnemyRowCentered r rowIndex startX y positions s =
     (let superAlienCols =
            (case positions of
               PosArray a \<Rightarrow> a
             | PosSingle c \<Rightarrow> [c]
             | PosUndefined \<Rightarrow> [nat \<lfloor>Between r 0 (real ENEMY_COLS - 1)\<rfloor>])
      in s\<lparr>enemies := enemies s @
               map (\<lambda>col. newEnemy s rowIndex (startX + real col * ENEMY_SPACING) y
                             (col \<in> set superAlienCols))
                   [0..<ENEMY_COLS],
            lastSpawnedRowY := Some y\<rparr>)"

text \<open>
  \<open>spawnPowerUp\<close> reads \<open>this.player.y\<close>; without a player the method throws before it
  writes anything.
\<close>

definition spawnPowerUp :: "real \<Rightarrow> game \<Rightarrow> game" where
  "spawnPowerUp r s =
     (if (case powerUp s of None \<Rightarrow> False | Some pu \<Rightarrow> powerup_active pu) then s
      else case the_player s of
             None \<Rightarrow> s
           | Some p \<Rightarrow>
               let playerY = player_y p;
                   powerUpX = Between r POWERUP_SIZE (sizes_width s - POWERUP_SIZE)
               in s\<lparr>powerUp := Some \<lparr>powerup_x = powerUpX, powerup_y = playerY,
                                      powerup_active = True\<rparr>\<rparr>)"

definition collectPowerUp :: "powerup option \<Rightarrow> game \<Rightarrow> game" where
  "collectPowerUp arg s =
     (case arg of
        None \<Rightarrow> s
      | Some pu \<Rightarrow>
          if \<not> powerup_active pu then s
          else s\<lparr>powerUp := None,
                 playerDoubleShot := True,
                 powerUpEndTime := time_now s + POWERUP_DURATION\<rparr>)"

definition checkPowerUpExpiration :: "game \<Rightarrow> game" where
  "checkPowerUpExpiration s =
     (if playerDoubleShot s \<and> time_now s \<ge> powerUpEndTime s
      then s\<lparr>playerDoubleShot := False\<rparr>
      else s)"

text \<open>The smallest \<open>y\<close> among the alive, active enemies; \<open>None\<close> is \<open>null\<close>.\<close>

definition topmostEnemyY :: "enemy list \<Rightarrow> real option" where
  "topmostEnemyY es =
     foldl (\<lambda>t e. if \<not> isAlive e \<or> \<not> enemy_active e then t
                   else (case t of None \<Rightarrow> Some (enemy_y e)
                         | Some ty \<Rightarrow> if enemy_y e < ty then Some (enemy_y e) else t))
           None es"

definition topRowLeftmost :: "real \<Rightarrow> enemy list \<Rightarrow> enemy option" where
  "topRowLeftmost topY es =
     foldl (\<lambda>l e. if \<not> isAlive e then l
                   else if \<bar>enemy_y e - topY\<bar> < 1
                        then (case l of None \<Rightarrow> Some e
                              | Some le \<Rightarrow> if enemy_x e < enemy_x le then Some e else l)
                        else l)
           None es"

definition spawnStartX :: "game \<Rightarrow> real \<Rightarrow> real" where
  "spawnStartX s topY =
     (let sidePadding = 20;
          formationWidth = (real ENEMY_COLS - 1) * ENEMY_SPACING;
          startX = sidePadding + (sizes_width s - formationWidth - (sidePadding * 2)) / 2
      in case topRowLeftmost topY (enemies s) of
           None \<Rightarrow> startX
         | Some l \<Rightarrow>
             let topRowEnemies =
                   sort_key enemy_x
                     (filter (\<lambda>e. isAlive e \<and> \<bar>enemy_y e - topY\<bar> < 1) (enemies s))
             in (case topRowEnemies of [] \<Rightarrow> startX | e # _ \<Rightarrow> enemy_x e))"

definition numSuperAliens :: "game \<Rightarrow> nat" where
  "numSuperAliens s = 1 + spawnedRowCount s div DIFFICULTY_SUPER_ALIENS_INCREASE_AFTER_LINES"

text \<open>
  The shuffled columns and the first \<open>numSuperAliens\<close> of them
  (\<open>for (i = 0; i < numSuperAliens && i < availableCols.length; i++)\<close>).
\<close>

definition superAlienColumns :: "(nat \<Rightarrow> real) \<Rightarrow> nat \<Rightarrow> nat list" where
  "superAlienColumns rnd n =
     (let availableCols = shuffle rnd [0..<ENEMY_COLS]
      in take n availableCols)"

definition setInitialVelocity :: "game \<Rightarrow> enemy \<Rightarrow> enemy" where
  "setInitialVelocity s e =
     (if row e = nextRowIndex s \<and> isAlive e
      then (case enemy_body e of
              None \<Rightarrow> e
            | Some b \<Rightarrow>
                e\<lparr>enemy_body := Some (b\<lparr>body_enable := True,
                                         velocityX := of_int (enemyDirection s) * enemySpeed s,
                                         velocityY := 0,
                                         gravityY := 0,
                                         allowGravity := False\<rparr>)\<rparr>)
      else e)"

definition shouldSpawn :: "game \<Rightarrow> real \<Rightarrow> bool" where
  "shouldSpawn s topY \<longleftrightarrow>
     (let spawnThreshold = -100
      in topY \<ge> spawnThreshold \<and>
         (case lastSpawnCheckY s of None \<Rightarrow> True | Some c \<Rightarrow> topY > c))"

text \<open>
  In \<open>checkSpawnNewRow\<close> the shuffle of the columns draws the random numbers
  \<open>rnd 0, \<dots>, rnd (ENEMY_COLS - 2)\<close>; \<open>spawnEnemyRowCentered\<close> is handed an array and
  draws none, so \<open>spawnPowerUp\<close> draws the next one.
\<close>

definition checkSpawnNewRow :: "(nat \<Rightarrow> real) \<Rightarrow> game \<Rightarrow> game" where
  "checkSpawnNewRow rnd s =
     (if lives s \<le> 0 then s
      else if lastSpawnedRowY s = None then s
      else case topmostEnemyY (enemies s) of
             None \<Rightarrow> s
           | Some topY \<Rightarrow>
               if shouldSpawn s topY then
                 let rowSpacing = 50;
                     startX = spawnStartX s topY;
                     newRowY = topY - rowSpacing;
                     positions = superAlienColumns rnd (numSuperAliens s);
                     s1 = spawnEnemyRowCentered (rnd (ENEMY_COLS - 1)) (nextRowIndex s) startX newRowY
                            (PosArray positions) s;
                     s2 = s1\<lparr>lastSpawnedRowY := Some newRowY,
                              lastSpawnCheckY := Some topY,
                              spawnedRowCount := spawnedRowCount s1 + 1\<rparr>;
                     s3 = (if spawnedRowCount s2 mod POWERUP_SPAWN_AFTER_ROWS = 0 \<and>
                              spawnedRowCount s2 \<noteq> lastPowerUpSpawnRow s2
                           then (spawnPowerUp (rnd (ENEMY_COLS - 1)) s2)
                                  \<lparr>lastPowerUpSpawnRow := spawnedRowCount s2\<rparr>
                           else s2);
                     s4 = s3\<lparr>rowsCanShoot := insert (nextRowIndex s3) (rowsCanShoot s3)\<rparr>;
                     s5 = s4\<lparr>enemies := map (setInitialVelocity s4) (enemies s4)\<rparr>
                 in s5\<lparr>nextRowIndex := nextRowIndex s5 + 1\<rparr>
               else s)"

section \<open>Collisions and session end\<close>

text \<open>
  JavaScript does not check what kind of object a handler is handed: \<open>hitEnemy(bullet, enemy)\<close>
  reads \<open>active\<close>, \<open>isSuperAlien\<close> and \<open>row\<close> from whatever objects arrive in the two
  positions. The overlap handlers are therefore functions of two game objects of any kind.
  A property that an object does not have is \<open>undefined\<close>: it is falsy where the code
  tests it (\<open>isSuperAlien\<close>), and it is equal to no row index (\<open>row\<close>).
\<close>

datatype gameObject = EnemyObj enemy | BulletObj bullet | PlayerObj player | PowerUpObj powerup

fun obj_active :: "gameObject \<Rightarrow> bool" where
  "obj_active (EnemyObj e) = enemy_active e"
| "obj_active (BulletObj b) = bullet_active b"
| "obj_active (PlayerObj p) = player_active p"
| "obj_active (PowerUpObj u) = powerup_active u"

fun obj_isSuperAlien :: "gameObject \<Rightarrow> bool" where
  "obj_isSuperAlien (EnemyObj e) = isSuperAlien e"
| "obj_isSuperAlien _ = False"

fun obj_row :: "gameObject \<Rightarrow> nat option" where
  "obj_row (EnemyObj e) = Some (row e)"
| "obj_row _ = None"

text \<open>
  Phaser's \<open>GameObject.destroy\<close>: the object becomes inactive and invisible, loses its
  physics body and leaves every group that holds it. A destroyed bullet leaves
  \<open>playerBullets\<close> and \<open>enemyBullets\<close>. The array \<open>enemies\<close> is not a group: a destroyed
  enemy stays in it, inactive and without body, until the code splices it out. The player
  and the power-up are referenced by the fields \<open>player\<close> and \<open>powerUp\<close>.
\<close>

definition destroyed :: "enemy \<Rightarrow> enemy" where
  "destroyed e = e\<lparr>enemy_active := False, enemy_body := None\<rparr>"

fun destroyEnemy :: "enemy \<Rightarrow> enemy list \<Rightarrow> enemy list" where
  "destroyEnemy e [] = []"
| "destroyEnemy e (x # xs) = (if x = e then destroyed x # xs else x # destroyEnemy e xs)"

fun destroy :: "gameObject \<Rightarrow> game \<Rightarrow> game" where
  "destroy (EnemyObj e) s = s\<lparr>enemies := destroyEnemy e (enemies s)\<rparr>"
| "destroy (BulletObj b) s =
     s\<lparr>playerBullets := remove1 b (playerBullets s),
       enemyBullets := remove1 b (enemyBullets s)\<rparr>"
| "destroy (PlayerObj p) s =
     (if the_player s = Some p
      then s\<lparr>the_player := Some (p\<lparr>player_visible := False, player_active := False\<rparr>)\<rparr>
      else s)"
| "destroy (PowerUpObj u) s =
     (if powerUp s = Some u
      then s\<lparr>powerUp := Some (u\<lparr>powerup_active := False\<rparr>)\<rparr>
      else s)"

definition checkGameOver :: "game \<Rightarrow> game" where
  "checkGameOver s =
     (case the_player s of
        None \<Rightarrow> s
      | Some p \<Rightarrow>
          let playerY = player_y p;
              playerHeight = player_height p * player_scaleY p;
              playerBottom = playerY + (playerHeight / 2);
              gameOverThreshold = playerBottom - 10
          in if \<exists>e \<in> set (enemies s).
                  isAlive e \<and> enemy_active e \<and>
                  enemy_y e + ((enemy_height e * enemy_scaleY e) / 2) \<ge> gameOverThreshold
             then gameOver s
             else s)"

text \<open>
  \<open>hitEnemy\<close>. After \<open>enemy.destroy()\<close> the code looks the object, which the array holds
  as a destroyed one by then, up in \<open>this.enemies\<close> (\<open>indexOf\<close>) and splices it out; an
  object that is not an enemy is not in the array.
  \<open>this.enemies.some(e => \<dots> e.row === enemy.row)\<close> is false when \<open>enemy.row\<close> is
  undefined, and \<open>rowsCanShoot.delete(undefined)\<close> removes nothing.
\<close>

definition hitEnemy :: "gameObject \<Rightarrow> gameObject \<Rightarrow> game \<Rightarrow> game" where
  "hitEnemy bullet enemy s =
     (if \<not> obj_active bullet then s
      else if \<not> obj_active enemy then s
      else
        let s1 = destroy bullet s;
            isSuper = obj_isSuperAlien enemy;
            s2 = destroy enemy s1;
            s3 = (case enemy of
                    EnemyObj e \<Rightarrow> s2\<lparr>enemies := remove1 (destroyed e) (enemies s2)\<rparr>
                  | _ \<Rightarrow> s2);
            rowHasAliveEnemies =
              (\<exists>a \<in> set (enemies s3).
                 isAlive a \<and> enemy_active a \<and> Some (row a) = obj_row enemy);
            s4 = (if \<not> rowHasAliveEnemies
                  then (case obj_row enemy of
                          None \<Rightarrow> s3
                        | Some r \<Rightarrow> s3\<lparr>rowsCanShoot := rowsCanShoot s3 - {r}\<rparr>)
                  else s3);
            points = (if isSuper then 7 else 5)
        in updateScore points s4)"

text \<open>
  \<open>hitPlayer\<close> never reads its second parameter; it works on \<open>this.player\<close>. It takes
  \<open>bullet\<close> out of \<open>enemyBullets\<close> when the group contains it and destroys it, which
  leaves the groups as \<open>destroy\<close> alone leaves them. It then puts the player back on the
  scene if the player has left it, and restores the \<open>visible\<close> and \<open>active\<close> flags of
  the player that it saved before.
\<close>

definition hitPlayer :: "gameObject \<Rightarrow> gameObject \<Rightarrow> game \<Rightarrow> game" where
  "hitPlayer bullet player s =
     (if playerHitProcessing s then s
      else if \<not> obj_active bullet then s
      else case the_player s of
             None \<Rightarrow> s
           | Some p \<Rightarrow>
               if lives s \<le> 0 then s
               else
                 let s1 = s\<lparr>playerHitProcessing := True\<rparr>;
                     playerWasVisible = player_visible p;
                     playerWasActive = player_active p;
                     s2 = destroy bullet s1;
                     s3 = s2\<lparr>the_player :=
                              map_option (\<lambda>q. q\<lparr>player_visible := playerWasVisible,
                                                 player_active := playerWasActive\<rparr>)
                                         (the_player s2)\<rparr>;
                     s4 = s3\<lparr>lives := lives s3 - 1\<rparr>;
                     s5 = (if lives s4 \<le> 0 then gameOver s4 else s4)
                 in s5\<lparr>delayedCalls := delayedCalls s5 @
                          [(time_now s5 + 500, ResetPlayerHitProcessing)]\<rparr>)"

section \<open>The frame loop and the clock\<close>

definition update :: "real option \<Rightarrow> (nat \<Rightarrow> real) \<Rightarrow> (nat \<Rightarrow> real) \<Rightarrow> game \<Rightarrow> game" where
  "update pointer rndShoot rndSpawn s =
     (if \<not> gameActive s then s
      else checkGameOver
             (checkPowerUpExpiration
               (checkSpawnNewRow rndSpawn
                 (cleanupBullets
                   (handleEnemyShooting rndShoot
                     (handleEnemyMovement
                       (handlePlayerShooting
                         (handlePlayerMovement pointer s))))))))"

text \<open>
  Phaser's scene clock advances before \<open>update\<close> runs and then fires every delayed call
  that has fallen due, in the order in which the calls were scheduled.
\<close>

fun runCallback :: "callback \<Rightarrow> game \<Rightarrow> game" where
  "runCallback ResetRowShooting s = s\<lparr>rowShooting := None\<rparr>"
| "runCallback ResetPlayerHitProcessing s = s\<lparr>playerHitProcessing := False\<rparr>"

definition clockUpdate :: "real \<Rightarrow> game \<Rightarrow> game" where
  "clockUpdate t s =
     (let due = filter (\<lambda>dc. fst dc \<le> t) (delayedCalls s);
          pending = filter (\<lambda>dc. \<not> fst dc \<le> t) (delayedCalls s)
      in foldl (\<lambda>st dc. runCallback (snd dc) st) (s\<lparr>time_now := t, delayedCalls := pending\<rparr>) due)"

text \<open>
  Phaser's Arcade physics world is not part of the repository. While it is not paused, a
  step of \<open>delta\<close> milliseconds moves every enabled body by its velocity (pixels per
  second); bullets have a vertical velocity only.
\<close>

definition moveBullet :: "real \<Rightarrow> bullet \<Rightarrow> bullet" where
  "moveBullet delta b = b\<lparr>bullet_y := bullet_y b + bullet_velocityY b * delta / 1000\<rparr>"

definition moveBody :: "real \<Rightarrow> enemy \<Rightarrow> enemy" where
  "moveBody delta e =
     (case enemy_body e of
        None \<Rightarrow> e
      | Some bd \<Rightarrow>
          if body_enable bd
          then e\<lparr>enemy_x := enemy_x e + velocityX bd * delta / 1000,
                 enemy_y := enemy_y e + velocityY bd * delta / 1000\<rparr>
          else e)"

definition physicsStep :: "real \<Rightarrow> game \<Rightarrow> game" where
  "physicsStep delta s =
     (if physicsPaused s then s
      else s\<lparr>enemies := map (moveBody delta) (enemies s),
             playerBullets := map (moveBullet delta) (playerBullets s),
             enemyBullets := map (moveBullet delta) (enemyBullets s)\<rparr>)"

text \<open>
  What can happen to a running scene: the clock advances, a frame is updated, the physics
  world moves the bodies, or it reports an overlap and calls one of the three handlers.
  The start button, which sets \<open>gameActive\<close> before the session, is hidden by its own
  click and is not among the events; the scene has no restart.

  The overlaps of a bullet are registered as \<open>overlap(this.playerBullets, enemy, this.hitEnemy)\<close>
  and \<open>overlap(this.enemyBullets, this.player, this.hitPlayer)\<close>: a group first, a sprite
  second. For a group and a sprite Phaser's Arcade world (\<open>collideSpriteVsGroup\<close>) calls
  the handler with the sprite first and the member of the group second, in whichever order
  the two were registered. So \<open>hitEnemy\<close> receives the enemy in the position it names
  \<open>bullet\<close> and the bullet in the position it names \<open>enemy\<close>, and \<open>hitPlayer\<close> receives
  the player as \<open>bullet\<close>. The overlap of the player and the power-up is one of two
  sprites, which are passed in the order of registration, as \<open>collectPowerUp\<close> names them.
\<close>

datatype event =
    ClockUpdate real
  | Update "real option" "nat \<Rightarrow> real" "nat \<Rightarrow> real"
  | PhysicsStep real
  | HitEnemy bullet enemy
  | HitPlayer bullet
  | CollectPowerUp "powerup option"

fun step :: "game \<Rightarrow> event \<Rightarrow> game" where
  "step s (ClockUpdate t) = clockUpdate t s"
| "step s (Update pointer rndShoot rndSpawn) = update pointer rndShoot rndSpawn s"
| "step s (PhysicsStep delta) = physicsStep delta s"
| "step s (HitEnemy b e) = hitEnemy (EnemyObj e) (BulletObj b) s"
| "step s (HitPlayer b) =
     (case the_player s of
        None \<Rightarrow> s
      | Some p \<Rightarrow> hitPlayer (PlayerObj p) (BulletObj b) s)"
| "step s (CollectPowerUp pu) = collectPowerUp pu s"

definition run :: "game \<Rightarrow> event list \<Rightarrow> game" where
  "run s evs = foldl step s evs"

section \<open>Predicates used in the statements\<close>

text \<open>
  An enemy's edge lies within the edge margin of the screen boundary it is moving towards.
\<close>

definition edgeHit :: "real \<Rightarrow> int \<Rightarrow> enemy \<Rightarrow> bool" where
  "edgeHit w d e \<longleftrightarrow>
     (d = 1 \<and> enemy_x e + halfWidth e \<ge> w - edgeMargin) \<or>
     (d = -1 \<and> enemy_x e - halfWidth e \<le> edgeMargin)"

text \<open>The test \<open>rowEdgeCheck\<close> applies to one row.\<close>

definition rowHit :: "real \<Rightarrow> int \<Rightarrow> enemy list \<Rightarrow> bool" where
  "rowHit w d es \<longleftrightarrow>
     (case es of [] \<Rightarrow> False
      | e0 # rest \<Rightarrow>
          (d = 1 \<and> enemy_x (rightmostEnemy e0 es) + halfWidth (rightmostEnemy e0 es) \<ge> w - edgeMargin) \<or>
          (d = -1 \<and> enemy_x (leftmostEnemy e0 es) - halfWidth (leftmostEnemy e0 es) \<le> edgeMargin))"

definition rowEntryOk :: "(nat \<times> enemy list) \<Rightarrow> bool" where
  "rowEntryOk p \<longleftrightarrow> snd p \<noteq> [] \<and> (\<forall>e \<in> set (snd p). isAlive e \<and> row e = fst p)"

text \<open>
  The alive enemies of row \<open>r\<close>, in array order. \<open>rowExtreme d es e\<close>: \<open>e\<close> is the alive
  enemy of its row whose centre is furthest to the right (\<open>d = 1\<close>) or to the left
  (\<open>d = -1\<close>), and the first such in array order. \<open>rowTrigger\<close>: the edge of such an enemy
  lies within the edge margin of the boundary that the formation moves towards.
\<close>

definition aliveRow :: "enemy list \<Rightarrow> nat \<Rightarrow> enemy list" where
  "aliveRow es r = filter (\<lambda>e. isAlive e \<and> row e = r) es"

definition rowExtreme :: "int \<Rightarrow> enemy list \<Rightarrow> enemy \<Rightarrow> bool" where
  "rowExtreme d es e \<longleftrightarrow>
     (let rowEnemies = aliveRow es (row e)
      in e \<in> set rowEnemies \<and>
         (d = 1 \<longrightarrow>
            (\<forall>a \<in> set rowEnemies. enemy_x a \<le> enemy_x e) \<and>
            (\<forall>a \<in> set (takeWhile (\<lambda>a. a \<noteq> e) rowEnemies). enemy_x a < enemy_x e)) \<and>
         (d = -1 \<longrightarrow>
            (\<forall>a \<in> set rowEnemies. enemy_x e \<le> enemy_x a) \<and>
            (\<forall>a \<in> set (takeWhile (\<lambda>a. a \<noteq> e) rowEnemies). enemy_x e < enemy_x a)))"

definition rowTrigger :: "real \<Rightarrow> int \<Rightarrow> enemy list \<Rightarrow> bool" where
  "rowTrigger w d es \<longleftrightarrow> (\<exists>e \<in> set es. rowExtreme d es e \<and> edgeHit w d e)"

text \<open>
  In every row, an alive enemy whose centre is furthest in the direction of movement has
  its edge at least as far out in that direction as every alive enemy of the row.
\<close>

definition rowEdgesLedByCentre :: "int \<Rightarrow> enemy list \<Rightarrow> bool" where
  "rowEdgesLedByCentre d es \<longleftrightarrow>
     (\<forall>a \<in> set es. \<forall>b \<in> set es.
        isAlive a \<and> isAlive b \<and> row a = row b \<longrightarrow>
          (d = 1 \<and> (\<forall>c \<in> set es. isAlive c \<and> row c = row b \<longrightarrow> enemy_x c \<le> enemy_x b)
             \<longrightarrow> enemy_x a + halfWidth a \<le> enemy_x b + halfWidth b) \<and>
          (d = -1 \<and> (\<forall>c \<in> set es. isAlive c \<and> row c = row b \<longrightarrow> enemy_x b \<le> enemy_x c)
             \<longrightarrow> enemy_x b - halfWidth b \<le> enemy_x a - halfWidth a))"

text \<open>
  Two stronger properties: within a row the edges are ordered like the centres; alive
  enemies of the same row have the same scaled width.
\<close>

definition edgesFollowCentres :: "enemy list \<Rightarrow> bool" where
  "edgesFollowCentres es \<longleftrightarrow>
     (\<forall>a \<in> set es. \<forall>b \<in> set es.
        isAlive a \<and> isAlive b \<and> row a = row b \<and> enemy_x a \<le> enemy_x b \<longrightarrow>
          enemy_x a + halfWidth a \<le> enemy_x b + halfWidth b \<and>
          enemy_x a - halfWidth a \<le> enemy_x b - halfWidth b)"

definition uniformRowWidths :: "enemy list \<Rightarrow> bool" where
  "uniformRowWidths es \<longleftrightarrow>
     (\<forall>a \<in> set es. \<forall>b \<in> set es.
        isAlive a \<and> isAlive b \<and> row a = row b \<longrightarrow> halfWidth a = halfWidth b)"

subsection \<open>Concrete scenes\<close>

definition exampleBody :: body where
  "exampleBody = \<lparr>body_enable = True, velocityX = 30, velocityY = 0, gravityY = 0,
                  allowGravity = False\<rparr>"

text \<open>An alive enemy of row \<open>r\<close> at \<open>(x, y)\<close> whose texture is \<open>w\<close> pixels wide.\<close>

definition exampleEnemy :: "real \<Rightarrow> real \<Rightarrow> real \<Rightarrow> nat \<Rightarrow> enemy" where
  "exampleEnemy x y w r =
     \<lparr>enemy_x = x, enemy_y = y, enemy_width = w, enemy_height = 40,
      enemy_scaleX = 1, enemy_scaleY = 1, enemy_active = True, isAlive = True,
      row = r, isSuperAlien = False, lastShotTime = 0, enemy_body = Some exampleBody\<rparr>"

definition examplePlayer :: player where
  "examplePlayer =
     \<lparr>player_x = 300, player_y = 1440, player_width = 60, player_height = 60,
      player_scaleX = 1, player_scaleY = 1, player_visible = True, player_active = True\<rparr>"

text \<open>
  A running scene on a 600 by 1920 screen with the constructor's values, no enemy and no
  bullet; the examples below put enemies and bullets into it.
\<close>

definition exampleGame :: game where
  "exampleGame =
     \<lparr>sizes_width = 600, sizes_height = 1920, scale = 1,
      alien_width = 40, alien_height = 40, superAlien_width = 40, superAlien_height = 40,
      time_now = 1000, delayedCalls = [], physicsPaused = False,
      the_player = Some examplePlayer, enemies = [], playerBullets = [], enemyBullets = [],
      score = 0, lives = 3, enemyDirection = 1, enemySpeed = 30, gameActive = True,
      enemyShootTimer = 1000, playerShootTimer = 1000, rowsCanShoot = {},
      rowShooting = None, playerHitProcessing = False, lastSpawnedRowY = Some 0,
      nextRowIndex = 5, lastSpawnCheckY = None, rowLastShotTime = Map.empty,
      minTimeBetweenRowShots = 800, spawnedRowCount = 0, powerUp = None,
      playerDoubleShot = False, powerUpEndTime = 0, lastPowerUpSpawnRow = 0\<rparr>"

definition examplePowerUp :: powerup where
  "examplePowerUp = \<lparr>powerup_x = 100, powerup_y = 1440, powerup_active = True\<rparr>"

text \<open>
  A screen 1080 pixels wide, on which the global scale is 1, with a super enemy texture
  200 pixels wide and a regular one 40 pixels wide: the row that \<open>spawnEnemyRowCentered\<close>
  makes at \<open>startX = 780\<close> with the super enemy in column 4. The enemies are scaled by
  0.75, the formation moves right.
\<close>

definition mixedRowScene :: game where
  "mixedRowScene =
     spawnEnemyRowCentered 0 0 780 100 (PosArray [4])
       (exampleGame\<lparr>sizes_width := 1080, superAlien_width := 200\<rparr>)"

text \<open>Three enemies of one row, 50 pixels apart, the middle one 4 pixels wider.\<close>

definition nearlyUniformRow :: "enemy list" where
  "nearlyUniformRow =
     [exampleEnemy 450 50 40 0, exampleEnemy 500 50 44 0, exampleEnemy 550 50 40 0]"

definition fallingScene :: game where
  "fallingScene =
     exampleGame\<lparr>enemies :=
       [(exampleEnemy 500 50 40 0)\<lparr>enemy_body := Some (exampleBody\<lparr>velocityY := 5\<rparr>)\<rparr>,
        exampleEnemy 560 50 40 0,
        (exampleEnemy 300 100 40 1)\<lparr>isAlive := False,
                                     enemy_body := Some (exampleBody\<lparr>velocityY := 7\<rparr>)\<rparr>]\<rparr>"

text \<open>Kinds of events, for statements about what happens between two of them.\<close>

fun isCollect :: "event \<Rightarrow> bool" where
  "isCollect (CollectPowerUp pu) = True"
| "isCollect _ = False"

fun clockAtMost :: "real \<Rightarrow> event \<Rightarrow> bool" where
  "clockAtMost t (ClockUpdate t') = (t' \<le> t)"
| "clockAtMost t _ = True"

definition skipScene :: game where
  "skipScene = exampleGame\<lparr>enemies := [exampleEnemy 100 50 40 0],
                            spawnedRowCount := 9,
                            powerUp := Some examplePowerUp\<rparr>"

text \<open>
  The due times of the pending delayed calls that clear \<open>playerHitProcessing\<close>, and the
  property that \<open>hitPlayer\<close> and the clock maintain: such a call is pending only while
  the flag is set, and then exactly once.
\<close>

definition hitResetCalls :: "game \<Rightarrow> real list" where
  "hitResetCalls s =
     map fst (filter (\<lambda>dc. snd dc = ResetPlayerHitProcessing) (delayedCalls s))"

definition hitGuardInv :: "game \<Rightarrow> bool" where
  "hitGuardInv s \<longleftrightarrow> length (hitResetCalls s) \<le> (if playerHitProcessing s then 1 else 0)"

fun clockBefore :: "real \<Rightarrow> event \<Rightarrow> bool" where
  "clockBefore t (ClockUpdate t') = (t' < t)"
| "clockBefore t _ = True"

definition exampleBullet :: "real \<Rightarrow> real \<Rightarrow> bullet" where
  "exampleBullet x y =
     \<lparr>bullet_x = x, bullet_y = y, bullet_velocityY = 200, bullet_active = True\<rparr>"

text \<open>Three enemy bullets overlap the player.\<close>

definition overlapScene :: game where
  "overlapScene =
     exampleGame\<lparr>enemyBullets :=
       [exampleBullet 290 1430, exampleBullet 310 1435, exampleBullet 300 1420]\<rparr>"

text \<open>An enemy whose lower edge (1480) has reached the player's line (1460); three lives left.\<close>

definition breachScene :: game where
  "breachScene = exampleGame\<lparr>enemies := [exampleEnemy 300 1460 40 0]\<rparr>"

text \<open>
  The lives are not negative, and the session has ended when no life is left.
\<close>

definition sessionOk :: "game \<Rightarrow> bool" where
  "sessionOk s \<longleftrightarrow> 0 \<le> lives s \<and> (lives s = 0 \<longrightarrow> \<not> gameActive s)"

text \<open>
  An alive enemy that has not been destroyed has its lower edge at the player's line, ten
  pixels above the lower edge of the player.
\<close>

definition enemyReachedPlayer :: "game \<Rightarrow> bool" where
  "enemyReachedPlayer s \<longleftrightarrow>
     (case the_player s of
        None \<Rightarrow> False
      | Some p \<Rightarrow>
          \<exists>e \<in> set (enemies s).
            isAlive e \<and> enemy_active e \<and>
            enemy_y e + (enemy_height e * enemy_scaleY e) / 2
              \<ge> player_y p + (player_height p * player_scaleY p) / 2 - 10)"

fun isUpdate :: "event \<Rightarrow> bool" where
  "isUpdate (Update pointer rndShoot rndSpawn) = True"
| "isUpdate _ = False"

fun isHitPlayer :: "event \<Rightarrow> bool" where
  "isHitPlayer (HitPlayer b) = True"
| "isHitPlayer _ = False"

text \<open>The scene of three overlapping bullets with one enemy and one player bullet.\<close>

definition killScene :: game where
  "killScene =
     overlapScene\<lparr>enemies := [exampleEnemy 100 50 40 0],
                   playerBullets := [exampleBullet 100 60]\<rparr>"

text \<open>
  The physics world reports the kill of the enemy and two hits on the player, 500
  milliseconds apart; one life is left.
\<close>

definition lastLifeScene :: game where
  "lastLifeScene =
     run killScene
       [HitEnemy (exampleBullet 100 60) (exampleEnemy 100 50 40 0),
        HitPlayer (exampleBullet 290 1430), ClockUpdate 1500,
        HitPlayer (exampleBullet 310 1435), ClockUpdate 2000]"

text \<open>
  The automatic player shot is due in this frame, and the cap on player bullets in force.
\<close>

definition playerShotDue :: "game \<Rightarrow> bool" where
  "playerShotDue s \<longleftrightarrow>
     the_player s \<noteq> None \<and> playerShootTimer s \<noteq> 0 \<and>
     time_now s - playerShootTimer s \<ge> PLAYER_SHOOT_INTERVAL"

definition playerCap :: "game \<Rightarrow> nat" where
  "playerCap s = (if playerDoubleShot s then 6 else 3)"

text \<open>
  A power-up is collected at 1000 ms (expiry 11000); frames at 9000, 9750 and 10500 fire
  three double shots, the physics world moves the bullets 375 pixels between frames, and
  the frame at 11250 lets the buff expire.
\<close>

definition expiryTrace :: "event list" where
  "expiryTrace =
     [CollectPowerUp (Some examplePowerUp),
      ClockUpdate 9000, Update None (\<lambda>_. 0) (\<lambda>_. 0), PhysicsStep 750,
      ClockUpdate 9750, Update None (\<lambda>_. 0) (\<lambda>_. 0), PhysicsStep 750,
      ClockUpdate 10500, Update None (\<lambda>_. 0) (\<lambda>_. 0), PhysicsStep 750,
      ClockUpdate 11250, Update None (\<lambda>_. 0) (\<lambda>_. 0)]"

text \<open>
  A power-up is collected at 1000 ms (expiry 11000), and the clock of the next frame shows
  exactly 11000.
\<close>

definition expiryFrame :: game where
  "expiryFrame = clockUpdate 11000 (collectPowerUp (Some examplePowerUp) exampleGame)"

text \<open>
  The bullets that a live enemy fires when \<open>n\<close> enemy bullets are in flight: one, or the
  pair of a super enemy, as far as the caps of \<open>shootFromEnemy\<close> allow.
\<close>

definition bulletsFired :: "enemy \<Rightarrow> nat \<Rightarrow> bullet list" where
  "bulletsFired e n =
     (if isSuperAlien e
      then (if n < 28 then [enemyBullet e (-10), enemyBullet e 10]
            else if n < 29 then [enemyBullet e 10]
            else [])
      else (if n < 29 then [enemyBullet e 0] else []))"

text \<open>A super enemy about to fire while 28 enemy bullets are in flight.\<close>

definition crowdedScene :: game where
  "crowdedScene = exampleGame\<lparr>enemyBullets := replicate 28 (exampleBullet 0 0)\<rparr>"

text \<open>
  Every enemy belongs to a row that has been spawned; and a run of events in which the
  volley timer is never written, so that no volley reset takes place.
\<close>

definition rowsBelowNext :: "game \<Rightarrow> bool" where
  "rowsBelowNext s \<longleftrightarrow> (\<forall>e \<in> set (enemies s). row e < nextRowIndex s)"

fun noVolleyReset :: "game \<Rightarrow> event list \<Rightarrow> bool" where
  "noVolleyReset s [] = True"
| "noVolleyReset s (ev # evs) =
     (enemyShootTimer (step s ev) = enemyShootTimer s \<and> noVolleyReset (step s ev) evs)"

text \<open>
  Three rows of one enemy each; the clock shows 6000 and the volley timer 1000, so the
  volley timer expires in this frame.
\<close>

definition volleyScene :: game where
  "volleyScene =
     exampleGame\<lparr>time_now := 6000,
                  enemies := [exampleEnemy 100 50 40 0, exampleEnemy 100 100 40 1,
                              exampleEnemy 100 150 40 2]\<rparr>"

text \<open>The same three rows, all of them eligible, with 29 enemy bullets in flight.\<close>

definition saturatedScene :: game where
  "saturatedScene =
     volleyScene\<lparr>rowsCanShoot := {0, 1, 2},
                 enemyBullets := replicate 29 (exampleBullet 0 0)\<rparr>"

text \<open>A scene whose topmost enemy has entered the screen after five spawned rows.\<close>

definition quotaScene :: game where
  "quotaScene = exampleGame\<lparr>enemies := [exampleEnemy 100 50 40 0], spawnedRowCount := 5\<rparr>"

section \<open>Formation movement: the edge test\<close>

lemma everyEnemyEdgeCheck_iff:
  "everyEnemyEdgeCheck w d es \<longleftrightarrow> (\<exists>e \<in> set es. isAlive e \<and> edgeHit w d e)"
  by (induction es) (auto simp: edgeHit_def Let_def)

lemma leftmostEnemy_mem: "leftmostEnemy e0 es \<in> insert e0 (set es)"
  unfolding leftmostEnemy_def
  by (induction es arbitrary: e0) (auto split: if_splits)

lemma rightmostEnemy_mem: "rightmostEnemy e0 es \<in> insert e0 (set es)"
  unfolding rightmostEnemy_def
  by (induction es arbitrary: e0) (auto split: if_splits)

lemma leftmostEnemy_le_start: "enemy_x (leftmostEnemy e0 es) \<le> enemy_x e0"
  unfolding leftmostEnemy_def
proof (induction es arbitrary: e0)
  case Nil then show ?case by simp
next
  case (Cons a es)
  show ?case using Cons.IH[of a] Cons.IH[of e0] by (auto simp: less_imp_le order_trans)
qed

lemma leftmostEnemy_le: "e \<in> set es \<Longrightarrow> enemy_x (leftmostEnemy e0 es) \<le> enemy_x e"
proof (induction es arbitrary: e0)
  case Nil then show ?case by simp
next
  case (Cons a es)
  have step: "leftmostEnemy e0 (a # es) = leftmostEnemy (if enemy_x a < enemy_x e0 then a else e0) es"
    by (simp add: leftmostEnemy_def)
  show ?case
  proof (cases "e = a")
    case True
    then show ?thesis
      using leftmostEnemy_le_start[of "if enemy_x a < enemy_x e0 then a else e0" es] step
      by (auto split: if_splits)
  next
    case False
    then show ?thesis using Cons step by auto
  qed
qed

lemma rightmostEnemy_ge_start: "enemy_x e0 \<le> enemy_x (rightmostEnemy e0 es)"
  unfolding rightmostEnemy_def
proof (induction es arbitrary: e0)
  case Nil then show ?case by simp
next
  case (Cons a es)
  show ?case using Cons.IH[of a] Cons.IH[of e0] by (auto simp: less_imp_le order_trans)
qed

lemma rightmostEnemy_ge: "e \<in> set es \<Longrightarrow> enemy_x e \<le> enemy_x (rightmostEnemy e0 es)"
proof (induction es arbitrary: e0)
  case Nil then show ?case by simp
next
  case (Cons a es)
  have step: "rightmostEnemy e0 (a # es) = rightmostEnemy (if enemy_x a > enemy_x e0 then a else e0) es"
    by (simp add: rightmostEnemy_def)
  show ?case
  proof (cases "e = a")
    case True
    then show ?thesis
      using rightmostEnemy_ge_start[of "if enemy_x a > enemy_x e0 then a else e0" es] step
      by (auto split: if_splits)
  next
    case False
    then show ?thesis using Cons step by auto
  qed
qed

lemma rowEntryOk_snoc:
  "rowEntryOk (k, es) \<Longrightarrow> isAlive e \<Longrightarrow> row e = k \<Longrightarrow> rowEntryOk (k, es @ [e])"
  by (simp add: rowEntryOk_def)

lemma rowEntryOk_single: "isAlive e \<Longrightarrow> rowEntryOk (row e, [e])"
  by (simp add: rowEntryOk_def)

lemma pushRow_ok:
  "\<forall>p \<in> set m. rowEntryOk p \<Longrightarrow> isAlive e \<Longrightarrow> \<forall>p \<in> set (pushRow (row e) e m). rowEntryOk p"
proof (induction m)
  case Nil
  then show ?case by (simp add: rowEntryOk_single)
next
  case (Cons p m)
  obtain k es where p: "p = (k, es)" by (cases p)
  have okp: "rowEntryOk (k, es)" and okm: "\<forall>q \<in> set m. rowEntryOk q"
    using Cons.prems(1) p by simp_all
  have ih: "\<forall>q \<in> set (pushRow (row e) e m). rowEntryOk q"
    using Cons.IH[OF okm Cons.prems(2)] .
  show ?case
    unfolding p
    using okp okm ih rowEntryOk_snoc[OF okp Cons.prems(2)] rowEntryOk_single[OF Cons.prems(2)]
    by auto
qed

lemma pushRow_members:
  "set (concat (map snd (pushRow r e m))) = insert e (set (concat (map snd m)))"
proof (induction m)
  case Nil then show ?case by simp
next
  case (Cons p m)
  obtain k es where p: "p = (k, es)" by (cases p)
  show ?case using Cons.IH unfolding p by (simp add: insert_commute Un_insert_left Un_insert_right)
qed

lemma foldl_pushRow_ok:
  "\<forall>p \<in> set m. rowEntryOk p \<Longrightarrow>
   \<forall>p \<in> set (foldl (\<lambda>m e. if \<not> isAlive e then m else pushRow (row e) e m) m es). rowEntryOk p"
proof (induction es arbitrary: m)
  case Nil then show ?case by simp
next
  case (Cons a es)
  show ?case
  proof (cases "isAlive a")
    case True
    have "\<forall>p \<in> set (pushRow (row a) a m). rowEntryOk p"
      using pushRow_ok[OF Cons.prems True] .
    from Cons.IH[OF this] True show ?thesis by simp
  next
    case False
    with Cons.IH[OF Cons.prems] show ?thesis by simp
  qed
qed

lemma foldl_pushRow_members:
  "set (concat (map snd (foldl (\<lambda>m e. if \<not> isAlive e then m else pushRow (row e) e m) m es)))
   = set (concat (map snd m)) \<union> {e \<in> set es. isAlive e}"
proof (induction es arbitrary: m)
  case Nil then show ?case by simp
next
  case (Cons a es)
  show ?case
  proof (cases "isAlive a")
    case True
    have "{e \<in> set (a # es). isAlive e} = insert a {e \<in> set es. isAlive e}"
      using True by auto
    then show ?thesis using True Cons.IH[of "pushRow (row a) a m"] pushRow_members[of "row a" a m]
      by simp
  next
    case False
    have "{e \<in> set (a # es). isAlive e} = {e \<in> set es. isAlive e}"
      using False by auto
    then show ?thesis using False Cons.IH[of m] by simp
  qed
qed

lemma enemiesByRow_ok: "\<forall>p \<in> set (enemiesByRow es). rowEntryOk p"
  unfolding enemiesByRow_def by (rule foldl_pushRow_ok) simp

lemma enemiesByRow_members:
  "set (concat (map snd (enemiesByRow es))) = {e \<in> set es. isAlive e}"
  unfolding enemiesByRow_def using foldl_pushRow_members[of "[]" es] by simp

lemma enemiesByRow_mem_iff:
  "(\<exists>p \<in> set (enemiesByRow es). e \<in> set (snd p)) \<longleftrightarrow> e \<in> set es \<and> isAlive e"
  using enemiesByRow_members[of es] by (auto simp: set_eq_iff)

lemma rowEdgeCheck_iff: "rowEdgeCheck w d m \<longleftrightarrow> (\<exists>p \<in> set m. rowHit w d (snd p))"
  by (induction w d m rule: rowEdgeCheck.induct) (auto simp: rowHit_def Let_def)

lemma rowHit_imp_edgeHit: "rowHit w d es \<Longrightarrow> \<exists>e \<in> set es. edgeHit w d e"
proof (cases es)
  case Nil
  assume "rowHit w d es" with Nil show ?thesis by (simp add: rowHit_def)
next
  case (Cons e0 rest)
  assume h: "rowHit w d es"
  have l: "leftmostEnemy e0 es \<in> set es" using leftmostEnemy_mem[of e0 es] Cons by auto
  have r: "rightmostEnemy e0 es \<in> set es" using rightmostEnemy_mem[of e0 es] Cons by auto
  from h Cons have "edgeHit w d (rightmostEnemy e0 es) \<or> edgeHit w d (leftmostEnemy e0 es)"
    by (auto simp: rowHit_def edgeHit_def)
  with l r show ?thesis by blast
qed

lemma rowEdgeCheck_imp_everyEnemy:
  assumes "rowEdgeCheck w d (enemiesByRow es)"
  shows "everyEnemyEdgeCheck w d es"
proof -
  from assms obtain p where p: "p \<in> set (enemiesByRow es)" "rowHit w d (snd p)"
    by (auto simp: rowEdgeCheck_iff)
  then obtain e where e: "e \<in> set (snd p)" "edgeHit w d e"
    using rowHit_imp_edgeHit by blast
  from p(1) e(1) have "e \<in> set es \<and> isAlive e"
    using enemiesByRow_mem_iff[of es e] by blast
  with e(2) show ?thesis by (auto simp: everyEnemyEdgeCheck_iff)
qed

subsection \<open>The rows of \<open>enemiesByRow\<close>\<close>

lemma pushRow_keys:
  "set (map fst (pushRow r e m)) = insert r (set (map fst m))"
  by (induction r e m rule: pushRow.induct) auto

lemma pushRow_sorted:
  "sorted_wrt (<) (map fst m) \<Longrightarrow> sorted_wrt (<) (map fst (pushRow r e m))"
proof (induction r e m rule: pushRow.induct)
  case (1 r e)
  then show ?case by simp
next
  case (2 r e k es m)
  show ?case
  proof (cases "k = r")
    case True
    then show ?thesis using 2(2) by simp
  next
    case False
    show ?thesis
    proof (cases "r < k")
      case True
      then show ?thesis using 2(2) False by auto
    next
      case ge: False
      have s: "sorted_wrt (<) (map fst (pushRow r e m))"
        using 2(1)[OF False ge] 2(2) by simp
      have "\<forall>x \<in> set (map fst (pushRow r e m)). k < x"
        unfolding pushRow_keys using 2(2) False ge by auto
      then show ?thesis using s False ge by simp
    qed
  qed
qed

lemma map_of_above:
  "\<forall>k \<in> set (map fst m). (r::nat) < k \<Longrightarrow> map_of m r = None"
  by (induction m) auto

lemma pushRow_map_of:
  "sorted_wrt (<) (map fst m) \<Longrightarrow>
   map_of (pushRow r e m) =
     (map_of m)(r \<mapsto> (case map_of m r of None \<Rightarrow> [e] | Some l \<Rightarrow> l @ [e]))"
proof (induction r e m rule: pushRow.induct)
  case (1 r e)
  then show ?case by simp
next
  case (2 r e k es m)
  show ?case
  proof (cases "k = r")
    case True
    then show ?thesis by (auto simp add: fun_eq_iff)
  next
    case False
    show ?thesis
    proof (cases "r < k")
      case True
      have "\<forall>x \<in> set (map fst m). r < x" using 2(2) True by auto
      then have "map_of m r = None" by (rule map_of_above)
      then show ?thesis using True False by (auto simp add: fun_eq_iff)
    next
      case ge: False
      have "sorted_wrt (<) (map fst m)" using 2(2) by simp
      from 2(1)[OF False ge this] show ?thesis using False ge by (auto simp add: fun_eq_iff)
    qed
  qed
qed

lemma enemiesByRow_snoc:
  "enemiesByRow (es @ [e]) =
     (if \<not> isAlive e then enemiesByRow es else pushRow (row e) e (enemiesByRow es))"
  by (simp add: enemiesByRow_def)

lemma aliveRow_snoc:
  "aliveRow (es @ [e]) r = aliveRow es r @ (if isAlive e \<and> row e = r then [e] else [])"
  by (simp add: aliveRow_def)

lemma enemiesByRow_rows:
  "sorted_wrt (<) (map fst (enemiesByRow es)) \<and>
   (\<forall>r. map_of (enemiesByRow es) r =
           (if aliveRow es r = [] then None else Some (aliveRow es r)))"
proof (induction es rule: rev_induct)
  case Nil
  then show ?case by (simp add: enemiesByRow_def aliveRow_def)
next
  case (snoc e es)
  show ?case
  proof (cases "isAlive e")
    case False
    then show ?thesis using snoc by (simp add: enemiesByRow_snoc aliveRow_snoc)
  next
    case True
    have s: "sorted_wrt (<) (map fst (enemiesByRow es))" using snoc by simp
    have m: "map_of (enemiesByRow es) r =
               (if aliveRow es r = [] then None else Some (aliveRow es r))" for r
      using snoc by simp
    have "map_of (enemiesByRow (es @ [e])) r =
            (if aliveRow (es @ [e]) r = [] then None else Some (aliveRow (es @ [e]) r))" for r
      using True by (simp add: enemiesByRow_snoc aliveRow_snoc pushRow_map_of[OF s] m)
    then show ?thesis using True pushRow_sorted[OF s] by (simp add: enemiesByRow_snoc)
  qed
qed

lemma enemiesByRow_entries:
  "p \<in> set (enemiesByRow es) \<longleftrightarrow> aliveRow es (fst p) \<noteq> [] \<and> snd p = aliveRow es (fst p)"
proof -
  have "sorted_wrt (<) (map fst (enemiesByRow es))" using enemiesByRow_rows by blast
  then have d: "distinct (map fst (enemiesByRow es))"
    using strict_sorted_iff by blast
  have "p \<in> set (enemiesByRow es) \<longleftrightarrow> map_of (enemiesByRow es) (fst p) = Some (snd p)"
    using map_of_eq_Some_iff[OF d, of "fst p" "snd p"] by simp
  then show ?thesis using enemiesByRow_rows[of es] by auto
qed


subsection \<open>The enemy that the per-row test looks at\<close>

lemma rightmostEnemy_first:
  "rightmostEnemy acc xs = acc \<or>
   (enemy_x acc < enemy_x (rightmostEnemy acc xs) \<and>
    (\<forall>a \<in> set (takeWhile (\<lambda>a. a \<noteq> rightmostEnemy acc xs) xs).
       enemy_x a < enemy_x (rightmostEnemy acc xs)))"
proof (induction xs arbitrary: acc)
  case Nil
  then show ?case by (simp add: rightmostEnemy_def)
next
  case (Cons a xs)
  let ?acc = "if enemy_x a > enemy_x acc then a else acc"
  let ?R = "rightmostEnemy acc (a # xs)"
  have st: "?R = rightmostEnemy ?acc xs" by (simp add: rightmostEnemy_def)
  from Cons.IH[of ?acc] consider
    (same) "?R = ?acc"
    | (later) "enemy_x ?acc < enemy_x ?R"
        "\<forall>b \<in> set (takeWhile (\<lambda>b. b \<noteq> ?R) xs). enemy_x b < enemy_x ?R"
    unfolding st by blast
  then show ?case
  proof cases
    case same
    show ?thesis
    proof (cases "enemy_x a > enemy_x acc")
      case True
      then have "?R = a" using same by simp
      then show ?thesis using True by simp
    next
      case False
      then show ?thesis using same by simp
    qed
  next
    case later
    have al: "enemy_x a < enemy_x ?R" using later(1) by (auto split: if_splits)
    have ac: "enemy_x acc < enemy_x ?R" using later(1) by (auto split: if_splits)
    have "a \<noteq> ?R" using al by auto
    then have "takeWhile (\<lambda>b. b \<noteq> ?R) (a # xs) = a # takeWhile (\<lambda>b. b \<noteq> ?R) xs" by simp
    then show ?thesis using al ac later(2) by simp
  qed
qed

lemma leftmostEnemy_first:
  "leftmostEnemy acc xs = acc \<or>
   (enemy_x (leftmostEnemy acc xs) < enemy_x acc \<and>
    (\<forall>a \<in> set (takeWhile (\<lambda>a. a \<noteq> leftmostEnemy acc xs) xs).
       enemy_x (leftmostEnemy acc xs) < enemy_x a))"
proof (induction xs arbitrary: acc)
  case Nil
  then show ?case by (simp add: leftmostEnemy_def)
next
  case (Cons a xs)
  let ?acc = "if enemy_x a < enemy_x acc then a else acc"
  let ?L = "leftmostEnemy acc (a # xs)"
  have st: "?L = leftmostEnemy ?acc xs" by (simp add: leftmostEnemy_def)
  from Cons.IH[of ?acc] consider
    (same) "?L = ?acc"
    | (later) "enemy_x ?L < enemy_x ?acc"
        "\<forall>b \<in> set (takeWhile (\<lambda>b. b \<noteq> ?L) xs). enemy_x ?L < enemy_x b"
    unfolding st by blast
  then show ?case
  proof cases
    case same
    show ?thesis
    proof (cases "enemy_x a < enemy_x acc")
      case True
      then have "?L = a" using same by simp
      then show ?thesis using True by simp
    next
      case False
      then show ?thesis using same by simp
    qed
  next
    case later
    have al: "enemy_x ?L < enemy_x a" using later(1) by (auto split: if_splits)
    have ac: "enemy_x ?L < enemy_x acc" using later(1) by (auto split: if_splits)
    have "a \<noteq> ?L" using al by auto
    then have "takeWhile (\<lambda>b. b \<noteq> ?L) (a # xs) = a # takeWhile (\<lambda>b. b \<noteq> ?L) xs" by simp
    then show ?thesis using al ac later(2) by simp
  qed
qed

lemma first_occurrence_order:
  "a \<in> set l \<Longrightarrow> b \<in> set l \<Longrightarrow> a \<noteq> b \<Longrightarrow>
   a \<in> set (takeWhile (\<lambda>x. x \<noteq> b) l) \<or> b \<in> set (takeWhile (\<lambda>x. x \<noteq> a) l)"
  by (induction l) auto

lemma firstMax_unique:
  fixes f :: "'a \<Rightarrow> real"
  assumes "e \<in> set l" "\<forall>a \<in> set l. f a \<le> f e"
    "\<forall>a \<in> set (takeWhile (\<lambda>a. a \<noteq> e) l). f a < f e"
    and "r \<in> set l" "\<forall>a \<in> set l. f a \<le> f r"
    "\<forall>a \<in> set (takeWhile (\<lambda>a. a \<noteq> r) l). f a < f r"
  shows "e = r"
proof (rule ccontr)
  assume ne: "e \<noteq> r"
  have x: "f e = f r" using assms(1,2,4,5) by (simp add: order_antisym)
  from first_occurrence_order[OF assms(1) assms(4) ne]
  show False
  proof
    assume "e \<in> set (takeWhile (\<lambda>x. x \<noteq> r) l)"
    then have "f e < f r" using assms(6) by blast
    then show False using x by simp
  next
    assume "r \<in> set (takeWhile (\<lambda>x. x \<noteq> e) l)"
    then have "f r < f e" using assms(3) by blast
    then show False using x by simp
  qed
qed

lemma rightmostEnemy_firstMax:
  "rightmostEnemy e0 (e0 # rest) \<in> set (e0 # rest) \<and>
   (\<forall>a \<in> set (e0 # rest). enemy_x a \<le> enemy_x (rightmostEnemy e0 (e0 # rest))) \<and>
   (\<forall>a \<in> set (takeWhile (\<lambda>a. a \<noteq> rightmostEnemy e0 (e0 # rest)) (e0 # rest)).
      enemy_x a < enemy_x (rightmostEnemy e0 (e0 # rest)))"
proof -
  define R where "R = rightmostEnemy e0 (e0 # rest)"
  have eq: "R = rightmostEnemy e0 rest" by (simp add: R_def rightmostEnemy_def)
  have mem: "R \<in> set (e0 # rest)"
    unfolding R_def using rightmostEnemy_mem[of e0 "e0 # rest"] by simp
  have ge: "\<forall>a \<in> set (e0 # rest). enemy_x a \<le> enemy_x R"
    unfolding R_def using rightmostEnemy_ge by blast
  have first: "\<forall>a \<in> set (takeWhile (\<lambda>a. a \<noteq> R) (e0 # rest)). enemy_x a < enemy_x R"
  proof (cases "R = e0")
    case True
    then show ?thesis by simp
  next
    case False
    have "enemy_x e0 < enemy_x R \<and>
        (\<forall>a \<in> set (takeWhile (\<lambda>a. a \<noteq> R) rest). enemy_x a < enemy_x R)"
      using rightmostEnemy_first[of e0 rest] False unfolding eq by blast
    then show ?thesis using False by simp
  qed
  show ?thesis using mem ge first unfolding R_def by blast
qed

lemma leftmostEnemy_firstMin:
  "leftmostEnemy e0 (e0 # rest) \<in> set (e0 # rest) \<and>
   (\<forall>a \<in> set (e0 # rest). enemy_x (leftmostEnemy e0 (e0 # rest)) \<le> enemy_x a) \<and>
   (\<forall>a \<in> set (takeWhile (\<lambda>a. a \<noteq> leftmostEnemy e0 (e0 # rest)) (e0 # rest)).
      enemy_x (leftmostEnemy e0 (e0 # rest)) < enemy_x a)"
proof -
  define L where "L = leftmostEnemy e0 (e0 # rest)"
  have eq: "L = leftmostEnemy e0 rest" by (simp add: L_def leftmostEnemy_def)
  have mem: "L \<in> set (e0 # rest)"
    unfolding L_def using leftmostEnemy_mem[of e0 "e0 # rest"] by simp
  have le: "\<forall>a \<in> set (e0 # rest). enemy_x L \<le> enemy_x a"
    unfolding L_def using leftmostEnemy_le by blast
  have first: "\<forall>a \<in> set (takeWhile (\<lambda>a. a \<noteq> L) (e0 # rest)). enemy_x L < enemy_x a"
  proof (cases "L = e0")
    case True
    then show ?thesis by simp
  next
    case False
    have "enemy_x L < enemy_x e0 \<and>
        (\<forall>a \<in> set (takeWhile (\<lambda>a. a \<noteq> L) rest). enemy_x L < enemy_x a)"
      using leftmostEnemy_first[of e0 rest] False unfolding eq by blast
    then show ?thesis using False by simp
  qed
  show ?thesis using mem le first unfolding L_def by blast
qed

lemma rowHit_right:
  assumes "l \<noteq> []"
  shows "rowHit w 1 l \<longleftrightarrow>
           (\<exists>e \<in> set l. (\<forall>a \<in> set l. enemy_x a \<le> enemy_x e) \<and>
              (\<forall>a \<in> set (takeWhile (\<lambda>a. a \<noteq> e) l). enemy_x a < enemy_x e) \<and>
              edgeHit w 1 e)"
proof -
  from assms obtain e0 rest where l: "l = e0 # rest" by (cases l) auto
  define R where "R = rightmostEnemy e0 l"
  have hit: "rowHit w 1 l \<longleftrightarrow> edgeHit w 1 R"
    by (simp add: rowHit_def edgeHit_def l R_def)
  have fm: "R \<in> set l" "\<forall>a \<in> set l. enemy_x a \<le> enemy_x R"
    "\<forall>a \<in> set (takeWhile (\<lambda>a. a \<noteq> R) l). enemy_x a < enemy_x R"
    using rightmostEnemy_firstMax[of e0 rest] unfolding R_def l by blast+
  show ?thesis
  proof
    assume "rowHit w 1 l"
    then have "edgeHit w 1 R" using hit by simp
    then show "\<exists>e \<in> set l. (\<forall>a \<in> set l. enemy_x a \<le> enemy_x e) \<and>
              (\<forall>a \<in> set (takeWhile (\<lambda>a. a \<noteq> e) l). enemy_x a < enemy_x e) \<and>
              edgeHit w 1 e"
      using fm by (intro bexI[of _ R]) simp_all
  next
    assume "\<exists>e \<in> set l. (\<forall>a \<in> set l. enemy_x a \<le> enemy_x e) \<and>
              (\<forall>a \<in> set (takeWhile (\<lambda>a. a \<noteq> e) l). enemy_x a < enemy_x e) \<and>
              edgeHit w 1 e"
    then obtain e where e: "e \<in> set l" "\<forall>a \<in> set l. enemy_x a \<le> enemy_x e"
      "\<forall>a \<in> set (takeWhile (\<lambda>a. a \<noteq> e) l). enemy_x a < enemy_x e" "edgeHit w 1 e"
      by blast
    have "e = R" using firstMax_unique[OF e(1,2,3) fm] .
    then show "rowHit w 1 l" using hit e(4) by simp
  qed
qed

lemma rowHit_left:
  assumes "l \<noteq> []"
  shows "rowHit w (-1) l \<longleftrightarrow>
           (\<exists>e \<in> set l. (\<forall>a \<in> set l. enemy_x e \<le> enemy_x a) \<and>
              (\<forall>a \<in> set (takeWhile (\<lambda>a. a \<noteq> e) l). enemy_x e < enemy_x a) \<and>
              edgeHit w (-1) e)"
proof -
  from assms obtain e0 rest where l: "l = e0 # rest" by (cases l) auto
  define L where "L = leftmostEnemy e0 l"
  have hit: "rowHit w (-1) l \<longleftrightarrow> edgeHit w (-1) L"
    by (simp add: rowHit_def edgeHit_def l L_def)
  have fm: "L \<in> set l" "\<forall>a \<in> set l. enemy_x L \<le> enemy_x a"
    "\<forall>a \<in> set (takeWhile (\<lambda>a. a \<noteq> L) l). enemy_x L < enemy_x a"
    using leftmostEnemy_firstMin[of e0 rest] unfolding L_def l by blast+
  have fm': "\<forall>a \<in> set l. - enemy_x a \<le> - enemy_x L"
    "\<forall>a \<in> set (takeWhile (\<lambda>a. a \<noteq> L) l). - enemy_x a < - enemy_x L"
    using fm(2,3) by simp_all
  show ?thesis
  proof
    assume "rowHit w (-1) l"
    then have "edgeHit w (-1) L" using hit by simp
    then show "\<exists>e \<in> set l. (\<forall>a \<in> set l. enemy_x e \<le> enemy_x a) \<and>
              (\<forall>a \<in> set (takeWhile (\<lambda>a. a \<noteq> e) l). enemy_x e < enemy_x a) \<and>
              edgeHit w (-1) e"
      using fm by (intro bexI[of _ L]) simp_all
  next
    assume "\<exists>e \<in> set l. (\<forall>a \<in> set l. enemy_x e \<le> enemy_x a) \<and>
              (\<forall>a \<in> set (takeWhile (\<lambda>a. a \<noteq> e) l). enemy_x e < enemy_x a) \<and>
              edgeHit w (-1) e"
    then obtain e where e: "e \<in> set l" "\<forall>a \<in> set l. enemy_x e \<le> enemy_x a"
      "\<forall>a \<in> set (takeWhile (\<lambda>a. a \<noteq> e) l). enemy_x e < enemy_x a" "edgeHit w (-1) e"
      by blast
    have e': "\<forall>a \<in> set l. - enemy_x a \<le> - enemy_x e"
      "\<forall>a \<in> set (takeWhile (\<lambda>a. a \<noteq> e) l). - enemy_x a < - enemy_x e"
      using e(2,3) by simp_all
    have "e = L"
      using firstMax_unique[of e l "\<lambda>a. - enemy_x a" L, OF e(1) e' fm(1) fm'] .
    then show "rowHit w (-1) l" using hit e(4) by simp
  qed
qed

lemma rowHit_other: "d \<noteq> 1 \<Longrightarrow> d \<noteq> -1 \<Longrightarrow> \<not> rowHit w d l"
  by (simp add: rowHit_def split: list.splits)

lemma edgeHit_other: "d \<noteq> 1 \<Longrightarrow> d \<noteq> -1 \<Longrightarrow> \<not> edgeHit w d e"
  by (simp add: edgeHit_def)

lemma aliveRow_mem: "e \<in> set (aliveRow es r) \<longleftrightarrow> e \<in> set es \<and> isAlive e \<and> row e = r"
  by (auto simp add: aliveRow_def)

lemma rowEdgeCheck_rows:
  "rowEdgeCheck w d (enemiesByRow es) \<longleftrightarrow>
     (\<exists>r. aliveRow es r \<noteq> [] \<and> rowHit w d (aliveRow es r))"
proof -
  have "rowEdgeCheck w d (enemiesByRow es) \<longleftrightarrow>
          (\<exists>p \<in> set (enemiesByRow es). rowHit w d (snd p))"
    by (rule rowEdgeCheck_iff)
  also have "\<dots> \<longleftrightarrow> (\<exists>r. aliveRow es r \<noteq> [] \<and> rowHit w d (aliveRow es r))"
  proof
    assume "\<exists>p \<in> set (enemiesByRow es). rowHit w d (snd p)"
    then obtain p where "p \<in> set (enemiesByRow es)" "rowHit w d (snd p)" by blast
    then show "\<exists>r. aliveRow es r \<noteq> [] \<and> rowHit w d (aliveRow es r)"
      using enemiesByRow_entries[of p es] by auto
  next
    assume "\<exists>r. aliveRow es r \<noteq> [] \<and> rowHit w d (aliveRow es r)"
    then obtain r where r: "aliveRow es r \<noteq> []" "rowHit w d (aliveRow es r)" by blast
    then have "(r, aliveRow es r) \<in> set (enemiesByRow es)"
      using enemiesByRow_entries[of "(r, aliveRow es r)" es] by simp
    then show "\<exists>p \<in> set (enemiesByRow es). rowHit w d (snd p)" using r(2) by force
  qed
  finally show ?thesis .
qed

lemma rowEdgeCheck_trigger: "rowEdgeCheck w d (enemiesByRow es) = rowTrigger w d es"
proof (cases "d = 1")
  case True
  show ?thesis
  proof
    assume "rowEdgeCheck w d (enemiesByRow es)"
    then obtain r where r: "aliveRow es r \<noteq> []" "rowHit w 1 (aliveRow es r)"
      using True by (auto simp add: rowEdgeCheck_rows)
    from r(2) obtain e where e: "e \<in> set (aliveRow es r)"
      "\<forall>a \<in> set (aliveRow es r). enemy_x a \<le> enemy_x e"
      "\<forall>a \<in> set (takeWhile (\<lambda>a. a \<noteq> e) (aliveRow es r)). enemy_x a < enemy_x e"
      "edgeHit w 1 e"
      unfolding rowHit_right[OF r(1)] by blast
    have re: "row e = r" "e \<in> set es" using e(1) by (simp_all add: aliveRow_mem)
    have "rowExtreme 1 es e" using e(1,2,3) re(1) by (simp add: rowExtreme_def Let_def)
    then show "rowTrigger w d es" using True e(4) re(2) by (auto simp add: rowTrigger_def)
  next
    assume "rowTrigger w d es"
    then obtain e where e: "e \<in> set es" "rowExtreme 1 es e" "edgeHit w 1 e"
      using True by (auto simp add: rowTrigger_def)
    let ?l = "aliveRow es (row e)"
    have m: "e \<in> set ?l" using e(2) by (simp add: rowExtreme_def Let_def)
    then have ne: "?l \<noteq> []" by auto
    have "rowHit w 1 ?l"
      unfolding rowHit_right[OF ne] using e(2,3) m by (auto simp add: rowExtreme_def Let_def)
    then show "rowEdgeCheck w d (enemiesByRow es)"
      using True ne by (auto simp add: rowEdgeCheck_rows)
  qed
next
  case False
  show ?thesis
  proof (cases "d = -1")
    case True
    show ?thesis
    proof
      assume "rowEdgeCheck w d (enemiesByRow es)"
      then obtain r where r: "aliveRow es r \<noteq> []" "rowHit w (-1) (aliveRow es r)"
        using True by (auto simp add: rowEdgeCheck_rows)
      from r(2) obtain e where e: "e \<in> set (aliveRow es r)"
        "\<forall>a \<in> set (aliveRow es r). enemy_x e \<le> enemy_x a"
        "\<forall>a \<in> set (takeWhile (\<lambda>a. a \<noteq> e) (aliveRow es r)). enemy_x e < enemy_x a"
        "edgeHit w (-1) e"
        unfolding rowHit_left[OF r(1)] by blast
      have re: "row e = r" "e \<in> set es" using e(1) by (simp_all add: aliveRow_mem)
      have "rowExtreme (-1) es e" using e(1,2,3) re(1) by (simp add: rowExtreme_def Let_def)
      then show "rowTrigger w d es" using True e(4) re(2) by (auto simp add: rowTrigger_def)
    next
      assume "rowTrigger w d es"
      then obtain e where e: "e \<in> set es" "rowExtreme (-1) es e" "edgeHit w (-1) e"
        using True by (auto simp add: rowTrigger_def)
      let ?l = "aliveRow es (row e)"
      have m: "e \<in> set ?l" using e(2) by (simp add: rowExtreme_def Let_def)
      then have ne: "?l \<noteq> []" by auto
      have "rowHit w (-1) ?l"
        unfolding rowHit_left[OF ne] using e(2,3) m by (auto simp add: rowExtreme_def Let_def)
      then show "rowEdgeCheck w d (enemiesByRow es)"
        using True ne by (auto simp add: rowEdgeCheck_rows)
    qed
  next
    case other: False
    show ?thesis
      using False other rowHit_other[of d w] edgeHit_other[of d w]
      by (auto simp add: rowEdgeCheck_rows rowTrigger_def)
  qed
qed

lemma rowTrigger_imp_edgeHit:
  "rowTrigger w d es \<Longrightarrow> \<exists>e \<in> set es. isAlive e \<and> edgeHit w d e"
  by (auto simp add: rowTrigger_def rowExtreme_def Let_def aliveRow_mem)

text \<open>
  In every row some alive enemy is the one that the per-row test looks at, for either
  direction.
\<close>

lemma rowExtreme_exists:
  assumes "e \<in> set es" "isAlive e"
  shows "\<exists>b \<in> set es. isAlive b \<and> row b = row e \<and> rowExtreme 1 es b"
    and "\<exists>b \<in> set es. isAlive b \<and> row b = row e \<and> rowExtreme (-1) es b"
proof -
  let ?l = "aliveRow es (row e)"
  have m: "e \<in> set ?l" using assms(1,2) by (simp add: aliveRow_mem)
  then obtain e0 rest where l: "?l = e0 # rest" by (cases ?l) auto
  define R where "R = rightmostEnemy e0 (e0 # rest)"
  define L where "L = leftmostEnemy e0 (e0 # rest)"
  have r: "R \<in> set ?l" "\<forall>a \<in> set ?l. enemy_x a \<le> enemy_x R"
    "\<forall>a \<in> set (takeWhile (\<lambda>a. a \<noteq> R) ?l). enemy_x a < enemy_x R"
    using rightmostEnemy_firstMax[of e0 rest] unfolding R_def l by blast+
  have rr: "row R = row e" "R \<in> set es" "isAlive R" using r(1) by (simp_all add: aliveRow_mem)
  have "rowExtreme 1 es R" using r rr(1) by (simp add: rowExtreme_def Let_def)
  then show "\<exists>b \<in> set es. isAlive b \<and> row b = row e \<and> rowExtreme 1 es b" using rr by blast
  have f: "L \<in> set ?l" "\<forall>a \<in> set ?l. enemy_x L \<le> enemy_x a"
    "\<forall>a \<in> set (takeWhile (\<lambda>a. a \<noteq> L) ?l). enemy_x L < enemy_x a"
    using leftmostEnemy_firstMin[of e0 rest] unfolding L_def l by blast+
  have ll: "row L = row e" "L \<in> set es" "isAlive L" using f(1) by (simp_all add: aliveRow_mem)
  have "rowExtreme (-1) es L" using f ll(1) by (simp add: rowExtreme_def Let_def)
  then show "\<exists>b \<in> set es. isAlive b \<and> row b = row e \<and> rowExtreme (-1) es b" using ll by blast
qed

lemma rowExtreme_centre:
  assumes "rowExtreme d es b" "c \<in> set es" "isAlive c" "row c = row b"
  shows "d = 1 \<Longrightarrow> enemy_x c \<le> enemy_x b" and "d = -1 \<Longrightarrow> enemy_x b \<le> enemy_x c"
  using assms by (auto simp add: rowExtreme_def Let_def aliveRow_mem)

lemma rowEdgesLedByCentre_right:
  assumes "rowEdgesLedByCentre 1 es" "a \<in> set es" "b \<in> set es"
    and "isAlive a" "isAlive b" "row a = row b"
    and "\<forall>c \<in> set es. isAlive c \<and> row c = row b \<longrightarrow> enemy_x c \<le> enemy_x b"
  shows "enemy_x a + halfWidth a \<le> enemy_x b + halfWidth b"
proof -
  note 1 = bspec[OF assms(1)[unfolded rowEdgesLedByCentre_def] assms(2)]
  note 2 = bspec[OF 1 assms(3)]
  show ?thesis using 2 assms(4-7) by simp
qed

lemma rowEdgesLedByCentre_left:
  assumes "rowEdgesLedByCentre (-1) es" "a \<in> set es" "b \<in> set es"
    and "isAlive a" "isAlive b" "row a = row b"
    and "\<forall>c \<in> set es. isAlive c \<and> row c = row b \<longrightarrow> enemy_x b \<le> enemy_x c"
  shows "enemy_x b - halfWidth b \<le> enemy_x a - halfWidth a"
proof -
  note 1 = bspec[OF assms(1)[unfolded rowEdgesLedByCentre_def] assms(2)]
  note 2 = bspec[OF 1 assms(3)]
  show ?thesis using 2 assms(4-7) by simp
qed

text \<open>
  When the enemy with the extreme centre of a row has its extreme edge, an edge of any
  alive enemy inside the margin is noticed by the per-row test.
\<close>

lemma edgeHit_imp_rowTrigger:
  assumes led: "rowEdgesLedByCentre d es"
    and e: "e \<in> set es" "isAlive e" "edgeHit w d e"
  shows "rowTrigger w d es"
proof -
  have d: "d = 1 \<or> d = -1" using e(3) by (auto simp add: edgeHit_def)
  then show ?thesis
  proof
    assume d1: "d = 1"
    from rowExtreme_exists(1)[OF e(1,2)] obtain b where
      b: "b \<in> set es" "isAlive b" "row b = row e" "rowExtreme 1 es b" by blast
    have c: "\<forall>c \<in> set es. isAlive c \<and> row c = row b \<longrightarrow> enemy_x c \<le> enemy_x b"
      using rowExtreme_centre(1)[OF b(4)] by simp
    have "enemy_x e + halfWidth e \<le> enemy_x b + halfWidth b"
      using rowEdgesLedByCentre_right[OF led[unfolded d1] e(1) b(1) e(2) b(2) b(3)[symmetric] c] .
    then have "edgeHit w 1 b" using e(3) d1 by (simp add: edgeHit_def)
    then have "\<exists>x \<in> set es. rowExtreme 1 es x \<and> edgeHit w 1 x" using b(1,4) by (intro bexI[of _ b]) simp_all
    then show ?thesis unfolding d1 rowTrigger_def .
  next
    assume d2: "d = -1"
    from rowExtreme_exists(2)[OF e(1,2)] obtain b where
      b: "b \<in> set es" "isAlive b" "row b = row e" "rowExtreme (-1) es b" by blast
    have c: "\<forall>c \<in> set es. isAlive c \<and> row c = row b \<longrightarrow> enemy_x b \<le> enemy_x c"
      using rowExtreme_centre(2)[OF b(4)] by simp
    have "enemy_x b - halfWidth b \<le> enemy_x e - halfWidth e"
      using rowEdgesLedByCentre_left[OF led[unfolded d2] e(1) b(1) e(2) b(2) b(3)[symmetric] c] .
    then have "edgeHit w (-1) b" using e(3) d2 by (simp add: edgeHit_def)
    then have "\<exists>x \<in> set es. rowExtreme (-1) es x \<and> edgeHit w (-1) x" using b(1,4) by (intro bexI[of _ b]) simp_all
    then show ?thesis unfolding d2 rowTrigger_def .
  qed
qed

lemma rowTrigger_eq_edgeHit:
  assumes "rowEdgesLedByCentre d es"
  shows "rowTrigger w d es = (\<exists>e \<in> set es. isAlive e \<and> edgeHit w d e)"
proof
  assume "rowTrigger w d es"
  then show "\<exists>e \<in> set es. isAlive e \<and> edgeHit w d e" by (rule rowTrigger_imp_edgeHit)
next
  assume "\<exists>e \<in> set es. isAlive e \<and> edgeHit w d e"
  then obtain e where "e \<in> set es" "isAlive e" "edgeHit w d e" by blast
  then show "rowTrigger w d es" using edgeHit_imp_rowTrigger[OF assms] by simp
qed

lemma edgesFollowCentres_led:
  assumes "edgesFollowCentres es"
  shows "rowEdgesLedByCentre d es"
  unfolding rowEdgesLedByCentre_def
proof (intro ballI impI)
  fix a b
  assume ab: "a \<in> set es" "b \<in> set es" "isAlive a \<and> isAlive b \<and> row a = row b"
  note 1 = bspec[OF bspec[OF assms[unfolded edgesFollowCentres_def] ab(1)] ab(2)]
  note 2 = bspec[OF bspec[OF assms[unfolded edgesFollowCentres_def] ab(2)] ab(1)]
  show "(d = 1 \<and> (\<forall>c \<in> set es. isAlive c \<and> row c = row b \<longrightarrow> enemy_x c \<le> enemy_x b)
             \<longrightarrow> enemy_x a + halfWidth a \<le> enemy_x b + halfWidth b) \<and>
        (d = -1 \<and> (\<forall>c \<in> set es. isAlive c \<and> row c = row b \<longrightarrow> enemy_x b \<le> enemy_x c)
             \<longrightarrow> enemy_x b - halfWidth b \<le> enemy_x a - halfWidth a)"
  proof (intro conjI impI)
    assume "d = 1 \<and> (\<forall>c \<in> set es. isAlive c \<and> row c = row b \<longrightarrow> enemy_x c \<le> enemy_x b)"
    then have "enemy_x a \<le> enemy_x b" using ab(1,3) by simp
    then show "enemy_x a + halfWidth a \<le> enemy_x b + halfWidth b" using 1 ab(3) by simp
  next
    assume "d = -1 \<and> (\<forall>c \<in> set es. isAlive c \<and> row c = row b \<longrightarrow> enemy_x b \<le> enemy_x c)"
    then have "enemy_x b \<le> enemy_x a" using ab(1,3) by simp
    then show "enemy_x b - halfWidth b \<le> enemy_x a - halfWidth a" using 2 ab(3) by simp
  qed
qed

lemma uniformRowWidths_follow:
  assumes "uniformRowWidths es"
  shows "edgesFollowCentres es"
  unfolding edgesFollowCentres_def
proof (intro ballI impI)
  fix a b
  assume ab: "a \<in> set es" "b \<in> set es"
    "isAlive a \<and> isAlive b \<and> row a = row b \<and> enemy_x a \<le> enemy_x b"
  note 1 = bspec[OF bspec[OF assms[unfolded uniformRowWidths_def] ab(1)] ab(2)]
  then have "halfWidth a = halfWidth b" using ab(3) by simp
  then show "enemy_x a + halfWidth a \<le> enemy_x b + halfWidth b \<and>
             enemy_x a - halfWidth a \<le> enemy_x b - halfWidth b"
    using ab(3) by simp
qed


subsection \<open>What \<open>handleEnemyMovement\<close> writes\<close>

lemma moveEnemy_y:
  "enemy_y (moveEnemy dn d sp e) =
     (if isAlive e \<and> dn then enemy_y e + ENEMY_DOWN_STEP else enemy_y e)"
  by (simp add: moveEnemy_def Let_def split: option.splits)




lemma handleEnemyMovement_direction:
  "enemyDirection (handleEnemyMovement s) =
     (if rowEdgeCheck (sizes_width s) (enemyDirection s) (enemiesByRow (enemies s))
      then - enemyDirection s else enemyDirection s)"
  by (simp add: handleEnemyMovement_def Let_def enemiesByRow_def)

lemma handleEnemyMovement_speed:
  "enemySpeed (handleEnemyMovement s) =
     (if rowEdgeCheck (sizes_width s) (enemyDirection s) (enemiesByRow (enemies s))
      then enemySpeed s + DIFFICULTY_ENEMY_SPEED_INCREASE else enemySpeed s)"
  by (simp add: handleEnemyMovement_def Let_def enemiesByRow_def)

lemma handleEnemyMovement_y:
  "map enemy_y (enemies (handleEnemyMovement s)) =
     map (\<lambda>e. if isAlive e \<and>
                  rowEdgeCheck (sizes_width s) (enemyDirection s) (enemiesByRow (enemies s))
               then enemy_y e + ENEMY_DOWN_STEP else enemy_y e)
         (enemies s)"
  by (cases "enemies s = []")
     (simp_all add: handleEnemyMovement_def Let_def moveEnemy_y enemiesByRow_def)

text \<open>
  C9, as amended. For every list of enemies, every screen width and every direction: a
  reversal signalled by the per-row test of \<open>handleEnemyMovement\<close> (part\_000) is also
  signalled by the test of every alive enemy (part\_001); and the two tests signal exactly
  together whenever, in every row, an alive enemy whose centre is furthest in the
  direction of movement has its edge at least as far out as every alive enemy of the row.
  The per-row test is the test of the enemy that \<open>rowExtreme\<close> describes: the rightmost
  alive enemy of a row by centre when moving right, the leftmost when moving left.
\<close>

theorem rowEdgeCheck_eq_everyEnemyEdgeCheck:
  "(rowEdgeCheck w d (enemiesByRow es) \<longrightarrow> everyEnemyEdgeCheck w d es) \<and>
   (rowEdgesLedByCentre d es \<longrightarrow>
      rowEdgeCheck w d (enemiesByRow es) = everyEnemyEdgeCheck w d es) \<and>
   rowEdgeCheck w d (enemiesByRow es) = rowTrigger w d es"
  using rowEdgeCheck_imp_everyEnemy[of w d es] rowEdgeCheck_trigger[of w d es]
    rowTrigger_eq_edgeHit[of d es w] everyEnemyEdgeCheck_iff[of w d es]
  by simp

theorem rowEdgeCheck_eq_everyEnemyEdgeCheck_witness:
  "rowEdgesLedByCentre 1 nearlyUniformRow \<and>
   map halfWidth nearlyUniformRow = [20, 22, 20] \<and>
   everyEnemyEdgeCheck 600 1 nearlyUniformRow \<and>
   rowEdgeCheck 600 1 (enemiesByRow nearlyUniformRow) \<and>
   rowTrigger 600 1 nearlyUniformRow"
proof -
  have l: "rowEdgesLedByCentre 1 nearlyUniformRow"
    by (simp add: rowEdgesLedByCentre_def nearlyUniformRow_def exampleEnemy_def halfWidth_def)
  have h: "map halfWidth nearlyUniformRow = [20, 22, 20]"
    by (simp add: nearlyUniformRow_def exampleEnemy_def halfWidth_def)
  have e: "everyEnemyEdgeCheck 600 1 nearlyUniformRow"
    by (simp add: nearlyUniformRow_def exampleEnemy_def halfWidth_def edgeMargin_def)
  show ?thesis
    using l h e rowEdgeCheck_eq_everyEnemyEdgeCheck[of 600 1 nearlyUniformRow] by blast
qed

text \<open>
  C9 as stated fails when widths differ within a row. Moving left on a 600 pixel screen,
  row 0 holds an enemy 40 wide at \<open>x = 100\<close> (left edge 80) and one 200 wide at
  \<open>x = 120\<close> (left edge 20, inside the margin of 30). The leftmost enemy by \<open>x\<close> is the
  narrow one, so the per-row test does not fire, and the test of every enemy does.
\<close>

theorem rowEdgeCheck_mixed_widths_counterexample:
  "\<not> (rowEdgeCheck 600 (-1) (enemiesByRow [exampleEnemy 100 50 40 0, exampleEnemy 120 50 200 0])
      = everyEnemyEdgeCheck 600 (-1) [exampleEnemy 100 50 40 0, exampleEnemy 120 50 200 0])"
  by (simp add: enemiesByRow_def exampleEnemy_def leftmostEnemy_def rightmostEnemy_def
        halfWidth_def edgeMargin_def)

text \<open>
  C1, as amended. In a tick in which the formation moves right and, in some row, the alive
  enemy with the greatest centre \<open>x\<close> (the first such in array order) has its right edge
  within the 30 pixel margin of the right boundary, or it moves left and the alive enemy
  of some row with the smallest centre \<open>x\<close> has its left edge within the margin of the
  left boundary, \<open>handleEnemyMovement\<close> flips the direction, adds the speed increment once
  and moves every alive enemy down by 20 once; in any other tick direction, speed and
  every \<open>y\<close> are unchanged. Such a tick is one in which some alive enemy's edge lies
  within the margin, so nothing changes in a tick without an edge in the margin; and the
  two kinds of tick are the same whenever, in every row, an alive enemy with the extreme
  centre has the extreme edge.
\<close>

theorem handleEnemyMovement_reversal:
  "(rowTrigger (sizes_width s) (enemyDirection s) (enemies s) \<longrightarrow>
      enemyDirection (handleEnemyMovement s) = - enemyDirection s \<and>
      enemySpeed (handleEnemyMovement s) = enemySpeed s + DIFFICULTY_ENEMY_SPEED_INCREASE \<and>
      map enemy_y (enemies (handleEnemyMovement s)) =
        map (\<lambda>e. if isAlive e then enemy_y e + 20 else enemy_y e) (enemies s)) \<and>
   (\<not> rowTrigger (sizes_width s) (enemyDirection s) (enemies s) \<longrightarrow>
      enemyDirection (handleEnemyMovement s) = enemyDirection s \<and>
      enemySpeed (handleEnemyMovement s) = enemySpeed s \<and>
      map enemy_y (enemies (handleEnemyMovement s)) = map enemy_y (enemies s)) \<and>
   (rowTrigger (sizes_width s) (enemyDirection s) (enemies s) \<longrightarrow>
      (\<exists>e \<in> set (enemies s). isAlive e \<and> edgeHit (sizes_width s) (enemyDirection s) e)) \<and>
   (rowEdgesLedByCentre (enemyDirection s) (enemies s) \<longrightarrow>
      rowTrigger (sizes_width s) (enemyDirection s) (enemies s) =
        (\<exists>e \<in> set (enemies s). isAlive e \<and> edgeHit (sizes_width s) (enemyDirection s) e))"
proof (intro conjI impI)
  assume t: "rowTrigger (sizes_width s) (enemyDirection s) (enemies s)"
  then have r: "rowEdgeCheck (sizes_width s) (enemyDirection s) (enemiesByRow (enemies s))"
    by (simp add: rowEdgeCheck_trigger)
  show "enemyDirection (handleEnemyMovement s) = - enemyDirection s"
    by (simp add: handleEnemyMovement_direction r)
  show "enemySpeed (handleEnemyMovement s) = enemySpeed s + DIFFICULTY_ENEMY_SPEED_INCREASE"
    by (simp add: handleEnemyMovement_speed r)
  show "map enemy_y (enemies (handleEnemyMovement s)) =
          map (\<lambda>e. if isAlive e then enemy_y e + 20 else enemy_y e) (enemies s)"
    by (simp add: handleEnemyMovement_y r ENEMY_DOWN_STEP_def)
  show "\<exists>e \<in> set (enemies s). isAlive e \<and> edgeHit (sizes_width s) (enemyDirection s) e"
    using t by (rule rowTrigger_imp_edgeHit)
next
  assume "\<not> rowTrigger (sizes_width s) (enemyDirection s) (enemies s)"
  then have r: "\<not> rowEdgeCheck (sizes_width s) (enemyDirection s) (enemiesByRow (enemies s))"
    by (simp add: rowEdgeCheck_trigger)
  show "enemyDirection (handleEnemyMovement s) = enemyDirection s"
    by (simp add: handleEnemyMovement_direction r)
  show "enemySpeed (handleEnemyMovement s) = enemySpeed s"
    by (simp add: handleEnemyMovement_speed r)
  show "map enemy_y (enemies (handleEnemyMovement s)) = map enemy_y (enemies s)"
    by (simp add: handleEnemyMovement_y r)
next
  assume "rowEdgesLedByCentre (enemyDirection s) (enemies s)"
  then show "rowTrigger (sizes_width s) (enemyDirection s) (enemies s) =
        (\<exists>e \<in> set (enemies s). isAlive e \<and> edgeHit (sizes_width s) (enemyDirection s) e)"
    by (rule rowTrigger_eq_edgeHit)
qed

theorem handleEnemyMovement_reversal_witness:
  "rowEdgesLedByCentre 1 (enemies fallingScene) \<and>
   (\<exists>e \<in> set (enemies fallingScene). isAlive e \<and> edgeHit 600 1 e) \<and>
   rowTrigger 600 1 (enemies fallingScene) \<and>
   enemyDirection (handleEnemyMovement fallingScene) = -1 \<and>
   enemySpeed (handleEnemyMovement fallingScene) = 30 + 1 / 2 \<and>
   map enemy_y (enemies (handleEnemyMovement fallingScene)) = [70, 70, 100] \<and>
   \<not> rowTrigger 600 1 (enemies volleyScene) \<and>
   enemyDirection (handleEnemyMovement volleyScene) = 1 \<and>
   enemySpeed (handleEnemyMovement volleyScene) = 30 \<and>
   map enemy_y (enemies (handleEnemyMovement volleyScene)) = [50, 100, 150]"
proof -
  have u: "rowEdgesLedByCentre 1 (enemies fallingScene)"
    by (simp add: rowEdgesLedByCentre_def fallingScene_def exampleGame_def exampleEnemy_def
          halfWidth_def)
  have h: "\<exists>e \<in> set (enemies fallingScene). isAlive e \<and> edgeHit 600 1 e"
    by (simp add: fallingScene_def exampleGame_def exampleEnemy_def halfWidth_def
          edgeHit_def edgeMargin_def)
  have v: "sizes_width fallingScene = 600" "enemyDirection fallingScene = 1"
    "enemySpeed fallingScene = 30"
    by (simp_all add: fallingScene_def exampleGame_def)
  have y: "map (\<lambda>e. if isAlive e then enemy_y e + 20 else enemy_y e) (enemies fallingScene)
           = [70, 70, 100]"
    by (simp add: fallingScene_def exampleGame_def exampleEnemy_def)
  have v2: "sizes_width volleyScene = 600" "enemyDirection volleyScene = 1"
    "enemySpeed volleyScene = 30" "map enemy_y (enemies volleyScene) = [50, 100, 150]"
    by (simp_all add: volleyScene_def exampleGame_def exampleEnemy_def)
  have n: "\<not> (\<exists>e \<in> set (enemies volleyScene). isAlive e \<and> edgeHit 600 1 e)"
    by (simp add: volleyScene_def exampleGame_def exampleEnemy_def halfWidth_def
          edgeHit_def edgeMargin_def)
  show ?thesis
    using u h n handleEnemyMovement_reversal[of fallingScene]
      handleEnemyMovement_reversal[of volleyScene]
    unfolding v v2 y
    by (auto simp add: DIFFICULTY_ENEMY_SPEED_INCREASE_def)
qed

text \<open>
  C1 as stated fails when the two textures differ enough in width. In \<open>mixedRowScene\<close> the
  formation moves right on a screen 1080 pixels wide; the spawned row stands at
  \<open>x = 780, \<dots>, 1030\<close>, the super enemy in column 4 at \<open>x = 980\<close> is 150 pixels wide on
  the screen (right edge 1055, inside the margin, which starts at 1050), the regular
  enemy in column 5 is 30 pixels wide (right edge 1045). The rightmost enemy by \<open>x\<close> is
  the regular one: nothing reverses and nothing steps down.
\<close>

theorem handleEnemyMovement_mixed_widths_counterexample:
  "enemyDirection mixedRowScene = 1 \<and>
   map enemy_x (enemies mixedRowScene) = [780, 830, 880, 930, 980, 1030] \<and>
   map halfWidth (enemies mixedRowScene) = [15, 15, 15, 15, 75, 15] \<and>
   (\<exists>e \<in> set (enemies mixedRowScene).
      isAlive e \<and> enemy_x e + halfWidth e \<ge> sizes_width mixedRowScene - 30) \<and>
   enemyDirection (handleEnemyMovement mixedRowScene) = 1 \<and>
   enemySpeed (handleEnemyMovement mixedRowScene) = enemySpeed mixedRowScene \<and>
   map enemy_y (enemies (handleEnemyMovement mixedRowScene)) =
     map enemy_y (enemies mixedRowScene)"
  by (simp add: mixedRowScene_def exampleGame_def spawnEnemyRowCentered_def newEnemy_def
        ENEMY_COLS_def ENEMY_SPACING_def upt_rec
        handleEnemyMovement_def enemiesByRow_def
        leftmostEnemy_def rightmostEnemy_def halfWidth_def edgeMargin_def
        moveEnemy_def)




text \<open>
  The earlier variant of the method (part\_001) does the same for every alive enemy whose
  body is enabled, whatever the re-alignment step does to the body, and it moves the
  enemies down by the same single step.
\<close>

lemma moveEnemy_part001_velocity:
  assumes "isAlive e" "enemy_body e = Some b" "body_enable b"
  shows "\<exists>b'. enemy_body (moveEnemy_part001 f dn d sp e) = Some b' \<and>
              velocityY b' = 0 \<and> velocityX b' = of_int d * sp"
  using assms by (simp add: moveEnemy_part001_def Let_def)

lemma moveEnemy_part001_y:
  "enemy_y (moveEnemy_part001 f dn d sp e) =
     (if isAlive e \<and> dn then enemy_y e + ENEMY_DOWN_STEP else enemy_y e)"
  by (simp add: moveEnemy_part001_def Let_def split: option.splits)

lemma handleEnemyMovement_part001_velocity:
  assumes "i < length (enemies s)" "isAlive (enemies s ! i)"
    and "enemy_body (enemies s ! i) = Some b" "body_enable b"
  shows "\<exists>b'. enemy_body (enemies (handleEnemyMovement_part001 f s) ! i) = Some b' \<and>
              velocityY b' = 0"
proof -
  have ne: "enemies s \<noteq> []" using assms(1) by auto
  have "\<exists>dn d sp.
          enemies (handleEnemyMovement_part001 f s) = map (moveEnemy_part001 f dn d sp) (enemies s)"
    using ne
    by (cases "everyEnemyEdgeCheck (sizes_width s) (enemyDirection s) (enemies s)")
       (simp_all add: handleEnemyMovement_part001_def Let_def, blast+)
  then obtain dn d sp where
    "enemies (handleEnemyMovement_part001 f s) = map (moveEnemy_part001 f dn d sp) (enemies s)"
    by blast
  then have "enemies (handleEnemyMovement_part001 f s) ! i
               = moveEnemy_part001 f dn d sp (enemies s ! i)"
    using assms(1) by simp
  then show ?thesis
    using moveEnemy_part001_velocity[OF assms(2,3,4), of f dn d sp] by auto
qed

lemma handleEnemyMovement_part001_y:
  "map enemy_y (enemies (handleEnemyMovement_part001 f s)) =
     map (\<lambda>e. if isAlive e \<and>
                  everyEnemyEdgeCheck (sizes_width s) (enemyDirection s) (enemies s)
               then enemy_y e + ENEMY_DOWN_STEP else enemy_y e)
         (enemies s)"
  by (cases "enemies s = []")
     (simp_all add: handleEnemyMovement_part001_def Let_def moveEnemy_part001_y)

section \<open>What each method leaves unchanged\<close>

lemma handlePlayerMovement_frame:
  "time_now (handlePlayerMovement p s) = time_now s"
  "powerUpEndTime (handlePlayerMovement p s) = powerUpEndTime s"
  "playerDoubleShot (handlePlayerMovement p s) = playerDoubleShot s"
  "lives (handlePlayerMovement p s) = lives s"
  "score (handlePlayerMovement p s) = score s"
  "gameActive (handlePlayerMovement p s) = gameActive s"
  "playerHitProcessing (handlePlayerMovement p s) = playerHitProcessing s"
  "delayedCalls (handlePlayerMovement p s) = delayedCalls s"
  "playerBullets (handlePlayerMovement p s) = playerBullets s"
  "enemyBullets (handlePlayerMovement p s) = enemyBullets s"
  "(the_player (handlePlayerMovement p s) = None) = (the_player s = None)"
  "powerUp (handlePlayerMovement p s) = powerUp s"
  "spawnedRowCount (handlePlayerMovement p s) = spawnedRowCount s"
  "lastPowerUpSpawnRow (handlePlayerMovement p s) = lastPowerUpSpawnRow s"
  by (simp_all add: handlePlayerMovement_def Let_def split: option.splits)

lemma handlePlayerShooting_frame:
  "time_now (handlePlayerShooting s) = time_now s"
  "powerUpEndTime (handlePlayerShooting s) = powerUpEndTime s"
  "playerDoubleShot (handlePlayerShooting s) = playerDoubleShot s"
  "lives (handlePlayerShooting s) = lives s"
  "score (handlePlayerShooting s) = score s"
  "gameActive (handlePlayerShooting s) = gameActive s"
  "playerHitProcessing (handlePlayerShooting s) = playerHitProcessing s"
  "delayedCalls (handlePlayerShooting s) = delayedCalls s"
  "enemyBullets (handlePlayerShooting s) = enemyBullets s"
  "the_player (handlePlayerShooting s) = the_player s"
  "powerUp (handlePlayerShooting s) = powerUp s"
  "spawnedRowCount (handlePlayerShooting s) = spawnedRowCount s"
  "lastPowerUpSpawnRow (handlePlayerShooting s) = lastPowerUpSpawnRow s"
  by (simp_all add: handlePlayerShooting_def Let_def split: option.splits)

lemma handleEnemyMovement_frame:
  "time_now (handleEnemyMovement s) = time_now s"
  "powerUpEndTime (handleEnemyMovement s) = powerUpEndTime s"
  "playerDoubleShot (handleEnemyMovement s) = playerDoubleShot s"
  "lives (handleEnemyMovement s) = lives s"
  "score (handleEnemyMovement s) = score s"
  "gameActive (handleEnemyMovement s) = gameActive s"
  "playerHitProcessing (handleEnemyMovement s) = playerHitProcessing s"
  "delayedCalls (handleEnemyMovement s) = delayedCalls s"
  "playerBullets (handleEnemyMovement s) = playerBullets s"
  "enemyBullets (handleEnemyMovement s) = enemyBullets s"
  "the_player (handleEnemyMovement s) = the_player s"
  "powerUp (handleEnemyMovement s) = powerUp s"
  "spawnedRowCount (handleEnemyMovement s) = spawnedRowCount s"
  "lastPowerUpSpawnRow (handleEnemyMovement s) = lastPowerUpSpawnRow s"
  by (simp_all add: handleEnemyMovement_def Let_def)

lemma shootFromEnemy_frame:
  "time_now (shootFromEnemy e s) = time_now s"
  "powerUpEndTime (shootFromEnemy e s) = powerUpEndTime s"
  "playerDoubleShot (shootFromEnemy e s) = playerDoubleShot s"
  "lives (shootFromEnemy e s) = lives s"
  "score (shootFromEnemy e s) = score s"
  "gameActive (shootFromEnemy e s) = gameActive s"
  "playerHitProcessing (shootFromEnemy e s) = playerHitProcessing s"
  "delayedCalls (shootFromEnemy e s) = delayedCalls s"
  "playerBullets (shootFromEnemy e s) = playerBullets s"
  "the_player (shootFromEnemy e s) = the_player s"
  "minTimeBetweenRowShots (shootFromEnemy e s) = minTimeBetweenRowShots s"
  "powerUp (shootFromEnemy e s) = powerUp s"
  "spawnedRowCount (shootFromEnemy e s) = spawnedRowCount s"
  "lastPowerUpSpawnRow (shootFromEnemy e s) = lastPowerUpSpawnRow s"
  by (simp_all add: shootFromEnemy_def Let_def)

lemma volleyReset_frame:
  "time_now (volleyReset s) = time_now s"
  "powerUpEndTime (volleyReset s) = powerUpEndTime s"
  "playerDoubleShot (volleyReset s) = playerDoubleShot s"
  "lives (volleyReset s) = lives s"
  "score (volleyReset s) = score s"
  "gameActive (volleyReset s) = gameActive s"
  "playerHitProcessing (volleyReset s) = playerHitProcessing s"
  "delayedCalls (volleyReset s) = delayedCalls s"
  "playerBullets (volleyReset s) = playerBullets s"
  "enemyBullets (volleyReset s) = enemyBullets s"
  "the_player (volleyReset s) = the_player s"
  "enemies (volleyReset s) = enemies s"
  "minTimeBetweenRowShots (volleyReset s) = minTimeBetweenRowShots s"
  "powerUp (volleyReset s) = powerUp s"
  "spawnedRowCount (volleyReset s) = spawnedRowCount s"
  "lastPowerUpSpawnRow (volleyReset s) = lastPowerUpSpawnRow s"
  by (simp_all add: volleyReset_def Let_def)

lemma handleEnemyShooting_frame:
  "time_now (handleEnemyShooting rnd s) = time_now s"
  "powerUpEndTime (handleEnemyShooting rnd s) = powerUpEndTime s"
  "playerDoubleShot (handleEnemyShooting rnd s) = playerDoubleShot s"
  "lives (handleEnemyShooting rnd s) = lives s"
  "score (handleEnemyShooting rnd s) = score s"
  "gameActive (handleEnemyShooting rnd s) = gameActive s"
  "playerHitProcessing (handleEnemyShooting rnd s) = playerHitProcessing s"
  "playerBullets (handleEnemyShooting rnd s) = playerBullets s"
  "the_player (handleEnemyShooting rnd s) = the_player s"
  "powerUp (handleEnemyShooting rnd s) = powerUp s"
  "spawnedRowCount (handleEnemyShooting rnd s) = spawnedRowCount s"
  "lastPowerUpSpawnRow (handleEnemyShooting rnd s) = lastPowerUpSpawnRow s"
  by (simp_all add: handleEnemyShooting_def Let_def shootFromEnemy_frame volleyReset_frame split: option.splits)

lemma handleEnemyShooting_delayedCalls:
  "delayedCalls (handleEnemyShooting rnd s) = delayedCalls s \<or>
   delayedCalls (handleEnemyShooting rnd s) =
     delayedCalls s @ [(time_now s + minTimeBetweenRowShots s, ResetRowShooting)]"
  by (simp add: handleEnemyShooting_def Let_def shootFromEnemy_frame volleyReset_frame split: option.splits)

lemma cleanupBullets_frame:
  "time_now (cleanupBullets s) = time_now s"
  "powerUpEndTime (cleanupBullets s) = powerUpEndTime s"
  "playerDoubleShot (cleanupBullets s) = playerDoubleShot s"
  "lives (cleanupBullets s) = lives s"
  "score (cleanupBullets s) = score s"
  "gameActive (cleanupBullets s) = gameActive s"
  "playerHitProcessing (cleanupBullets s) = playerHitProcessing s"
  "delayedCalls (cleanupBullets s) = delayedCalls s"
  "the_player (cleanupBullets s) = the_player s"
  "powerUp (cleanupBullets s) = powerUp s"
  "spawnedRowCount (cleanupBullets s) = spawnedRowCount s"
  "lastPowerUpSpawnRow (cleanupBullets s) = lastPowerUpSpawnRow s"
  by (simp_all add: cleanupBullets_def)

lemma spawnPowerUp_frame:
  "time_now (spawnPowerUp r s) = time_now s"
  "powerUpEndTime (spawnPowerUp r s) = powerUpEndTime s"
  "playerDoubleShot (spawnPowerUp r s) = playerDoubleShot s"
  "lives (spawnPowerUp r s) = lives s"
  "score (spawnPowerUp r s) = score s"
  "gameActive (spawnPowerUp r s) = gameActive s"
  "playerHitProcessing (spawnPowerUp r s) = playerHitProcessing s"
  "delayedCalls (spawnPowerUp r s) = delayedCalls s"
  "playerBullets (spawnPowerUp r s) = playerBullets s"
  "enemyBullets (spawnPowerUp r s) = enemyBullets s"
  "the_player (spawnPowerUp r s) = the_player s"
  "spawnedRowCount (spawnPowerUp r s) = spawnedRowCount s"
  "lastPowerUpSpawnRow (spawnPowerUp r s) = lastPowerUpSpawnRow s"
  "enemies (spawnPowerUp r s) = enemies s"
  "rowsCanShoot (spawnPowerUp r s) = rowsCanShoot s"
  "nextRowIndex (spawnPowerUp r s) = nextRowIndex s"
  by (simp_all add: spawnPowerUp_def Let_def split: option.splits)

lemma spawnEnemyRowCentered_frame:
  "time_now (spawnEnemyRowCentered r i x y ps s) = time_now s"
  "powerUpEndTime (spawnEnemyRowCentered r i x y ps s) = powerUpEndTime s"
  "playerDoubleShot (spawnEnemyRowCentered r i x y ps s) = playerDoubleShot s"
  "lives (spawnEnemyRowCentered r i x y ps s) = lives s"
  "score (spawnEnemyRowCentered r i x y ps s) = score s"
  "gameActive (spawnEnemyRowCentered r i x y ps s) = gameActive s"
  "playerHitProcessing (spawnEnemyRowCentered r i x y ps s) = playerHitProcessing s"
  "delayedCalls (spawnEnemyRowCentered r i x y ps s) = delayedCalls s"
  "playerBullets (spawnEnemyRowCentered r i x y ps s) = playerBullets s"
  "enemyBullets (spawnEnemyRowCentered r i x y ps s) = enemyBullets s"
  "the_player (spawnEnemyRowCentered r i x y ps s) = the_player s"
  "spawnedRowCount (spawnEnemyRowCentered r i x y ps s) = spawnedRowCount s"
  "lastPowerUpSpawnRow (spawnEnemyRowCentered r i x y ps s) = lastPowerUpSpawnRow s"
  "powerUp (spawnEnemyRowCentered r i x y ps s) = powerUp s"
  "rowsCanShoot (spawnEnemyRowCentered r i x y ps s) = rowsCanShoot s"
  "nextRowIndex (spawnEnemyRowCentered r i x y ps s) = nextRowIndex s"
  by (simp_all add: spawnEnemyRowCentered_def Let_def)

lemma checkSpawnNewRow_frame:
  "time_now (checkSpawnNewRow rnd s) = time_now s"
  "powerUpEndTime (checkSpawnNewRow rnd s) = powerUpEndTime s"
  "playerDoubleShot (checkSpawnNewRow rnd s) = playerDoubleShot s"
  "lives (checkSpawnNewRow rnd s) = lives s"
  "score (checkSpawnNewRow rnd s) = score s"
  "gameActive (checkSpawnNewRow rnd s) = gameActive s"
  "playerHitProcessing (checkSpawnNewRow rnd s) = playerHitProcessing s"
  "delayedCalls (checkSpawnNewRow rnd s) = delayedCalls s"
  "playerBullets (checkSpawnNewRow rnd s) = playerBullets s"
  "enemyBullets (checkSpawnNewRow rnd s) = enemyBullets s"
  "the_player (checkSpawnNewRow rnd s) = the_player s"
  by (simp_all add: checkSpawnNewRow_def Let_def spawnPowerUp_frame spawnEnemyRowCentered_frame split: option.splits)

lemma checkPowerUpExpiration_frame:
  "time_now (checkPowerUpExpiration s) = time_now s"
  "powerUpEndTime (checkPowerUpExpiration s) = powerUpEndTime s"
  "lives (checkPowerUpExpiration s) = lives s"
  "score (checkPowerUpExpiration s) = score s"
  "gameActive (checkPowerUpExpiration s) = gameActive s"
  "playerHitProcessing (checkPowerUpExpiration s) = playerHitProcessing s"
  "delayedCalls (checkPowerUpExpiration s) = delayedCalls s"
  "playerBullets (checkPowerUpExpiration s) = playerBullets s"
  "enemyBullets (checkPowerUpExpiration s) = enemyBullets s"
  "the_player (checkPowerUpExpiration s) = the_player s"
  "powerUp (checkPowerUpExpiration s) = powerUp s"
  "spawnedRowCount (checkPowerUpExpiration s) = spawnedRowCount s"
  "lastPowerUpSpawnRow (checkPowerUpExpiration s) = lastPowerUpSpawnRow s"
  by (simp_all add: checkPowerUpExpiration_def)

lemma checkPowerUpExpiration_doubleShot:
  "playerDoubleShot (checkPowerUpExpiration s) = (playerDoubleShot s \<and> time_now s < powerUpEndTime s)"
  by (auto simp add: checkPowerUpExpiration_def)

lemma gameOver_frame:
  "time_now (gameOver s) = time_now s"
  "powerUpEndTime (gameOver s) = powerUpEndTime s"
  "playerDoubleShot (gameOver s) = playerDoubleShot s"
  "lives (gameOver s) = lives s"
  "score (gameOver s) = score s"
  "gameActive (gameOver s) = False"
  "playerHitProcessing (gameOver s) = playerHitProcessing s"
  "delayedCalls (gameOver s) = delayedCalls s"
  "playerBullets (gameOver s) = playerBullets s"
  "enemyBullets (gameOver s) = enemyBullets s"
  "the_player (gameOver s) = the_player s"
  "powerUp (gameOver s) = powerUp s"
  "spawnedRowCount (gameOver s) = spawnedRowCount s"
  "lastPowerUpSpawnRow (gameOver s) = lastPowerUpSpawnRow s"
  by (simp_all add: gameOver_def)

lemma checkGameOver_frame:
  "time_now (checkGameOver s) = time_now s"
  "powerUpEndTime (checkGameOver s) = powerUpEndTime s"
  "playerDoubleShot (checkGameOver s) = playerDoubleShot s"
  "lives (checkGameOver s) = lives s"
  "score (checkGameOver s) = score s"
  "playerHitProcessing (checkGameOver s) = playerHitProcessing s"
  "delayedCalls (checkGameOver s) = delayedCalls s"
  "playerBullets (checkGameOver s) = playerBullets s"
  "enemyBullets (checkGameOver s) = enemyBullets s"
  "the_player (checkGameOver s) = the_player s"
  "powerUp (checkGameOver s) = powerUp s"
  "spawnedRowCount (checkGameOver s) = spawnedRowCount s"
  "lastPowerUpSpawnRow (checkGameOver s) = lastPowerUpSpawnRow s"
  by (simp_all add: checkGameOver_def Let_def gameOver_frame split: option.splits)

lemma checkGameOver_gameActive: "gameActive (checkGameOver s) \<Longrightarrow> gameActive s"
  by (simp add: checkGameOver_def Let_def gameOver_frame split: option.splits if_splits)

lemmas update_parts_frame =
  handlePlayerMovement_frame handlePlayerShooting_frame handleEnemyMovement_frame
  handleEnemyShooting_frame cleanupBullets_frame checkSpawnNewRow_frame
  checkPowerUpExpiration_frame checkGameOver_frame

lemma update_frame:
  "time_now (update p r1 r2 s) = time_now s"
  "powerUpEndTime (update p r1 r2 s) = powerUpEndTime s"
  "lives (update p r1 r2 s) = lives s"
  "score (update p r1 r2 s) = score s"
  "playerHitProcessing (update p r1 r2 s) = playerHitProcessing s"
  by (simp_all add: update_def update_parts_frame)

lemma update_doubleShot:
  "playerDoubleShot (update p r1 r2 s) =
     (if gameActive s then playerDoubleShot s \<and> time_now s < powerUpEndTime s
      else playerDoubleShot s)"
  by (simp add: update_def update_parts_frame checkPowerUpExpiration_doubleShot)

lemma update_gameActive: "gameActive (update p r1 r2 s) \<Longrightarrow> gameActive s"
  by (cases "gameActive s") (simp_all add: update_def)

lemma runCallback_frame:
  "time_now (runCallback c s) = time_now s"
  "powerUpEndTime (runCallback c s) = powerUpEndTime s"
  "playerDoubleShot (runCallback c s) = playerDoubleShot s"
  "lives (runCallback c s) = lives s"
  "score (runCallback c s) = score s"
  "gameActive (runCallback c s) = gameActive s"
  "delayedCalls (runCallback c s) = delayedCalls s"
  "playerBullets (runCallback c s) = playerBullets s"
  "enemyBullets (runCallback c s) = enemyBullets s"
  "the_player (runCallback c s) = the_player s"
  "powerUp (runCallback c s) = powerUp s"
  "spawnedRowCount (runCallback c s) = spawnedRowCount s"
  "lastPowerUpSpawnRow (runCallback c s) = lastPowerUpSpawnRow s"
  by (cases c; simp)+

lemma foldl_runCallback_frame:
  "time_now (foldl (\<lambda>st dc. runCallback (snd dc) st) s cs) = time_now s"
  "powerUpEndTime (foldl (\<lambda>st dc. runCallback (snd dc) st) s cs) = powerUpEndTime s"
  "playerDoubleShot (foldl (\<lambda>st dc. runCallback (snd dc) st) s cs) = playerDoubleShot s"
  "lives (foldl (\<lambda>st dc. runCallback (snd dc) st) s cs) = lives s"
  "score (foldl (\<lambda>st dc. runCallback (snd dc) st) s cs) = score s"
  "gameActive (foldl (\<lambda>st dc. runCallback (snd dc) st) s cs) = gameActive s"
  "delayedCalls (foldl (\<lambda>st dc. runCallback (snd dc) st) s cs) = delayedCalls s"
  "playerBullets (foldl (\<lambda>st dc. runCallback (snd dc) st) s cs) = playerBullets s"
  "enemyBullets (foldl (\<lambda>st dc. runCallback (snd dc) st) s cs) = enemyBullets s"
  "the_player (foldl (\<lambda>st dc. runCallback (snd dc) st) s cs) = the_player s"
  "powerUp (foldl (\<lambda>st dc. runCallback (snd dc) st) s cs) = powerUp s"
  "spawnedRowCount (foldl (\<lambda>st dc. runCallback (snd dc) st) s cs) = spawnedRowCount s"
  "lastPowerUpSpawnRow (foldl (\<lambda>st dc. runCallback (snd dc) st) s cs) = lastPowerUpSpawnRow s"
proof (induction cs arbitrary: s)
  case Nil
  { case 1 show ?case by simp }
  { case 2 show ?case by simp }
  { case 3 show ?case by simp }
  { case 4 show ?case by simp }
  { case 5 show ?case by simp }
  { case 6 show ?case by simp }
  { case 7 show ?case by simp }
  { case 8 show ?case by simp }
  { case 9 show ?case by simp }
  { case 10 show ?case by simp }
  { case 11 show ?case by simp }
  { case 12 show ?case by simp }
  { case 13 show ?case by simp }
next
  case (Cons c cs)
  note r = runCallback_frame
  { case 1 show ?case by (simp add: Cons.IH r) }
  { case 2 show ?case by (simp add: Cons.IH r) }
  { case 3 show ?case by (simp add: Cons.IH r) }
  { case 4 show ?case by (simp add: Cons.IH r) }
  { case 5 show ?case by (simp add: Cons.IH r) }
  { case 6 show ?case by (simp add: Cons.IH r) }
  { case 7 show ?case by (simp add: Cons.IH r) }
  { case 8 show ?case by (simp add: Cons.IH r) }
  { case 9 show ?case by (simp add: Cons.IH r) }
  { case 10 show ?case by (simp add: Cons.IH r) }
  { case 11 show ?case by (simp add: Cons.IH r) }
  { case 12 show ?case by (simp add: Cons.IH r) }
  { case 13 show ?case by (simp add: Cons.IH r) }
qed

lemma clockUpdate_frame:
  "time_now (clockUpdate t s) = t"
  "powerUpEndTime (clockUpdate t s) = powerUpEndTime s"
  "playerDoubleShot (clockUpdate t s) = playerDoubleShot s"
  "lives (clockUpdate t s) = lives s"
  "score (clockUpdate t s) = score s"
  "gameActive (clockUpdate t s) = gameActive s"
  "playerBullets (clockUpdate t s) = playerBullets s"
  "enemyBullets (clockUpdate t s) = enemyBullets s"
  "the_player (clockUpdate t s) = the_player s"
  "powerUp (clockUpdate t s) = powerUp s"
  "spawnedRowCount (clockUpdate t s) = spawnedRowCount s"
  "lastPowerUpSpawnRow (clockUpdate t s) = lastPowerUpSpawnRow s"
  by (simp_all add: clockUpdate_def Let_def foldl_runCallback_frame)

lemma destroy_frame:
  "time_now (destroy ob s) = time_now s"
  "powerUpEndTime (destroy ob s) = powerUpEndTime s"
  "playerDoubleShot (destroy ob s) = playerDoubleShot s"
  "lives (destroy ob s) = lives s"
  "score (destroy ob s) = score s"
  "gameActive (destroy ob s) = gameActive s"
  "physicsPaused (destroy ob s) = physicsPaused s"
  "playerHitProcessing (destroy ob s) = playerHitProcessing s"
  "delayedCalls (destroy ob s) = delayedCalls s"
  "spawnedRowCount (destroy ob s) = spawnedRowCount s"
  "lastPowerUpSpawnRow (destroy ob s) = lastPowerUpSpawnRow s"
  "nextRowIndex (destroy ob s) = nextRowIndex s"
  "enemyShootTimer (destroy ob s) = enemyShootTimer s"
  "rowsCanShoot (destroy ob s) = rowsCanShoot s"
  by (cases ob; simp)+

lemma length_remove1_le: "length (remove1 x xs) \<le> length xs"
  by (induction xs) auto

lemma destroy_bullets_bound:
  "length (playerBullets (destroy ob s)) \<le> length (playerBullets s)"
  "length (enemyBullets (destroy ob s)) \<le> length (enemyBullets s)"
  by (cases ob; simp add: length_remove1_le)+

lemma destroy_player:
  "the_player (destroy ob s) = the_player s \<or>
   (\<exists>p. the_player s = Some p \<and>
        the_player (destroy ob s) = Some (p\<lparr>player_visible := False, player_active := False\<rparr>))"
  by (cases ob) simp_all

lemma hitEnemy_frame:
  "time_now (hitEnemy b e s) = time_now s"
  "powerUpEndTime (hitEnemy b e s) = powerUpEndTime s"
  "playerDoubleShot (hitEnemy b e s) = playerDoubleShot s"
  "lives (hitEnemy b e s) = lives s"
  "gameActive (hitEnemy b e s) = gameActive s"
  "playerHitProcessing (hitEnemy b e s) = playerHitProcessing s"
  "delayedCalls (hitEnemy b e s) = delayedCalls s"
  "spawnedRowCount (hitEnemy b e s) = spawnedRowCount s"
  "lastPowerUpSpawnRow (hitEnemy b e s) = lastPowerUpSpawnRow s"
  by (simp_all add: hitEnemy_def Let_def updateScore_def destroy_frame
        split: gameObject.splits option.splits)

text \<open>The call that the physics world makes: the enemy first, the bullet second.\<close>

lemma hitEnemy_overlap_frame:
  "the_player (hitEnemy (EnemyObj e) (BulletObj b) s) = the_player s"
  "powerUp (hitEnemy (EnemyObj e) (BulletObj b) s) = powerUp s"
  "rowsCanShoot (hitEnemy (EnemyObj e) (BulletObj b) s) = rowsCanShoot s"
  by (simp_all add: hitEnemy_def Let_def updateScore_def)

lemma hitEnemy_overlap_enemies:
  "enemies (hitEnemy (EnemyObj e) (BulletObj b) s) =
     (if enemy_active e \<and> bullet_active b then destroyEnemy e (enemies s) else enemies s)"
  by (simp add: hitEnemy_def Let_def updateScore_def)

lemma hitEnemy_overlap_playerBullets:
  "playerBullets (hitEnemy (EnemyObj e) (BulletObj b) s) =
     (if enemy_active e \<and> bullet_active b then remove1 b (playerBullets s) else playerBullets s)"
  by (simp add: hitEnemy_def Let_def updateScore_def)

lemma hitPlayer_frame:
  "time_now (hitPlayer b pl s) = time_now s"
  "powerUpEndTime (hitPlayer b pl s) = powerUpEndTime s"
  "playerDoubleShot (hitPlayer b pl s) = playerDoubleShot s"
  "score (hitPlayer b pl s) = score s"
  "spawnedRowCount (hitPlayer b pl s) = spawnedRowCount s"
  "lastPowerUpSpawnRow (hitPlayer b pl s) = lastPowerUpSpawnRow s"
  by (simp_all add: hitPlayer_def Let_def gameOver_def destroy_frame split: option.splits)

lemma hitPlayer_player: "the_player (hitPlayer b pl s) = the_player s"
proof (cases "the_player s")
  case None
  then show ?thesis by (simp add: hitPlayer_def)
next
  case (Some p)
  have r: "map_option (\<lambda>q. q\<lparr>player_visible := player_visible p,
                              player_active := player_active p\<rparr>)
             (the_player (destroy b (s\<lparr>playerHitProcessing := True\<rparr>))) = Some p"
    using destroy_player[of b "s\<lparr>playerHitProcessing := True\<rparr>"] Some by auto
  show ?thesis using Some r by (simp add: hitPlayer_def Let_def gameOver_def)
qed

text \<open>The call that the physics world makes: the player first, the bullet second.\<close>

lemma hitPlayer_overlap_frame:
  "playerBullets (hitPlayer (PlayerObj p) pl s) = playerBullets s"
  "enemyBullets (hitPlayer (PlayerObj p) pl s) = enemyBullets s"
  "powerUp (hitPlayer (PlayerObj p) pl s) = powerUp s"
  "enemies (hitPlayer (PlayerObj p) pl s) = enemies s"
  "rowsCanShoot (hitPlayer (PlayerObj p) pl s) = rowsCanShoot s"
  "nextRowIndex (hitPlayer (PlayerObj p) pl s) = nextRowIndex s"
  "enemyShootTimer (hitPlayer (PlayerObj p) pl s) = enemyShootTimer s"
  by (simp_all add: hitPlayer_def Let_def gameOver_def split: option.splits)

lemma step_hit_frame:
  "time_now (step s (HitEnemy b e)) = time_now s"
  "powerUpEndTime (step s (HitEnemy b e)) = powerUpEndTime s"
  "playerDoubleShot (step s (HitEnemy b e)) = playerDoubleShot s"
  "lives (step s (HitEnemy b e)) = lives s"
  "gameActive (step s (HitEnemy b e)) = gameActive s"
  "playerHitProcessing (step s (HitEnemy b e)) = playerHitProcessing s"
  "delayedCalls (step s (HitEnemy b e)) = delayedCalls s"
  "spawnedRowCount (step s (HitEnemy b e)) = spawnedRowCount s"
  "lastPowerUpSpawnRow (step s (HitEnemy b e)) = lastPowerUpSpawnRow s"
  "the_player (step s (HitEnemy b e)) = the_player s"
  "powerUp (step s (HitEnemy b e)) = powerUp s"
  "rowsCanShoot (step s (HitEnemy b e)) = rowsCanShoot s"
  "time_now (step s (HitPlayer b)) = time_now s"
  "powerUpEndTime (step s (HitPlayer b)) = powerUpEndTime s"
  "playerDoubleShot (step s (HitPlayer b)) = playerDoubleShot s"
  "score (step s (HitPlayer b)) = score s"
  "spawnedRowCount (step s (HitPlayer b)) = spawnedRowCount s"
  "lastPowerUpSpawnRow (step s (HitPlayer b)) = lastPowerUpSpawnRow s"
  "the_player (step s (HitPlayer b)) = the_player s"
  "playerBullets (step s (HitPlayer b)) = playerBullets s"
  "enemyBullets (step s (HitPlayer b)) = enemyBullets s"
  "powerUp (step s (HitPlayer b)) = powerUp s"
  "enemies (step s (HitPlayer b)) = enemies s"
  "rowsCanShoot (step s (HitPlayer b)) = rowsCanShoot s"
  "nextRowIndex (step s (HitPlayer b)) = nextRowIndex s"
  "enemyShootTimer (step s (HitPlayer b)) = enemyShootTimer s"
  by (simp_all add: hitEnemy_frame hitEnemy_overlap_frame hitPlayer_frame hitPlayer_player
        hitPlayer_overlap_frame split: option.splits)

lemma physicsStep_frame:
  "time_now (physicsStep dt s) = time_now s"
  "powerUpEndTime (physicsStep dt s) = powerUpEndTime s"
  "playerDoubleShot (physicsStep dt s) = playerDoubleShot s"
  "lives (physicsStep dt s) = lives s"
  "score (physicsStep dt s) = score s"
  "gameActive (physicsStep dt s) = gameActive s"
  "playerHitProcessing (physicsStep dt s) = playerHitProcessing s"
  "delayedCalls (physicsStep dt s) = delayedCalls s"
  "the_player (physicsStep dt s) = the_player s"
  "powerUp (physicsStep dt s) = powerUp s"
  "spawnedRowCount (physicsStep dt s) = spawnedRowCount s"
  "lastPowerUpSpawnRow (physicsStep dt s) = lastPowerUpSpawnRow s"
  "length (playerBullets (physicsStep dt s)) = length (playerBullets s)"
  "length (enemyBullets (physicsStep dt s)) = length (enemyBullets s)"
  by (simp_all add: physicsStep_def)

lemma collectPowerUp_frame:
  "time_now (collectPowerUp a s) = time_now s"
  "lives (collectPowerUp a s) = lives s"
  "score (collectPowerUp a s) = score s"
  "gameActive (collectPowerUp a s) = gameActive s"
  "playerHitProcessing (collectPowerUp a s) = playerHitProcessing s"
  "delayedCalls (collectPowerUp a s) = delayedCalls s"
  "playerBullets (collectPowerUp a s) = playerBullets s"
  "enemyBullets (collectPowerUp a s) = enemyBullets s"
  "the_player (collectPowerUp a s) = the_player s"
  "spawnedRowCount (collectPowerUp a s) = spawnedRowCount s"
  "lastPowerUpSpawnRow (collectPowerUp a s) = lastPowerUpSpawnRow s"
  by (simp_all add: collectPowerUp_def split: option.splits)

section \<open>Power-up lifecycle\<close>

lemma step_buff_invariant:
  assumes "\<not> isCollect ev" "clockAtMost t ev"
    and "powerUpEndTime s = E" "time_now s \<le> t" "t < E \<longrightarrow> playerDoubleShot s"
  shows "powerUpEndTime (step s ev) = E \<and> time_now (step s ev) \<le> t \<and>
         (t < E \<longrightarrow> playerDoubleShot (step s ev))"
proof (cases ev)
  case (ClockUpdate t')
  with assms show ?thesis by (simp add: clockUpdate_frame)
next
  case (Update p r1 r2)
  with assms show ?thesis by (auto simp add: update_frame update_doubleShot)
next
  case (HitEnemy b e)
  with assms show ?thesis by (simp add: step_hit_frame del: step.simps)
next
  case (HitPlayer b)
  with assms show ?thesis by (simp add: step_hit_frame del: step.simps)
next
  case (PhysicsStep dt)
  with assms show ?thesis by (simp add: physicsStep_frame)
next
  case (CollectPowerUp pu)
  with assms show ?thesis by simp
qed

lemma run_buff_invariant:
  assumes "\<forall>ev \<in> set evs. \<not> isCollect ev \<and> clockAtMost t ev"
    and "powerUpEndTime s = E" "time_now s \<le> t" "t < E \<longrightarrow> playerDoubleShot s"
  shows "powerUpEndTime (run s evs) = E \<and> time_now (run s evs) \<le> t \<and>
         (t < E \<longrightarrow> playerDoubleShot (run s evs))"
  using assms
proof (induction evs arbitrary: s)
  case Nil
  then show ?case by (simp add: run_def)
next
  case (Cons ev evs)
  have st: "powerUpEndTime (step s ev) = E \<and> time_now (step s ev) \<le> t \<and>
         (t < E \<longrightarrow> playerDoubleShot (step s ev))"
    using step_buff_invariant[of ev t s E] Cons.prems by simp
  have "run s (ev # evs) = run (step s ev) evs" by (simp add: run_def)
  then show ?case using Cons.IH[of "step s ev"] st Cons.prems(1) by simp
qed

lemma step_flag_off:
  "\<not> isCollect ev \<Longrightarrow> \<not> playerDoubleShot s \<Longrightarrow> \<not> playerDoubleShot (step s ev)"
proof (cases ev)
  case (ClockUpdate t)
  then show "\<not> playerDoubleShot s \<Longrightarrow> ?thesis" by (simp add: clockUpdate_frame)
next
  case (Update p r1 r2)
  then show "\<not> playerDoubleShot s \<Longrightarrow> ?thesis" by (simp add: update_doubleShot)
next
  case (HitEnemy b e)
  then show "\<not> playerDoubleShot s \<Longrightarrow> ?thesis" by (simp add: step_hit_frame del: step.simps)
next
  case (HitPlayer b)
  then show "\<not> playerDoubleShot s \<Longrightarrow> ?thesis" by (simp add: step_hit_frame del: step.simps)
next
  case (PhysicsStep dt)
  then show "\<not> playerDoubleShot s \<Longrightarrow> ?thesis" by (simp add: physicsStep_frame)
next
  case (CollectPowerUp pu)
  then show "\<not> isCollect ev \<Longrightarrow> ?thesis" by simp
qed

lemma run_flag_off:
  "\<forall>ev \<in> set evs. \<not> isCollect ev \<Longrightarrow> \<not> playerDoubleShot s \<Longrightarrow>
   \<not> playerDoubleShot (run s evs)"
proof (induction evs arbitrary: s)
  case Nil
  then show ?case by (simp add: run_def)
next
  case (Cons ev evs)
  have r: "run s (ev # evs) = run (step s ev) evs" by (simp add: run_def)
  have "\<not> playerDoubleShot (step s ev)" using step_flag_off[of ev s] Cons.prems by simp
  then show ?case unfolding r using Cons.IH[of "step s ev"] Cons.prems(1) by simp
qed

text \<open>
  The player bullets after a frame: those of \<open>handlePlayerShooting\<close>, less the ones that
  have left the screen.
\<close>

lemma update_playerBullets:
  "gameActive s \<Longrightarrow>
   playerBullets (update p r1 r2 s) =
     filter (\<lambda>b. \<not> bullet_y b < 0)
       (playerBullets (handlePlayerShooting (handlePlayerMovement p s)))"
proof -
  assume a: "gameActive s"
  let ?a = "handlePlayerShooting (handlePlayerMovement p s)"
  let ?m = "handleEnemyShooting r1 (handleEnemyMovement ?a)"
  have u: "playerBullets (update p r1 r2 s) = playerBullets (cleanupBullets ?m)"
    using a by (simp add: update_def update_parts_frame)
  have m: "playerBullets ?m = playerBullets ?a" by (simp add: update_parts_frame)
  show ?thesis unfolding u using m by (simp add: cleanupBullets_def)
qed

lemma handlePlayerShooting_double:
  assumes "playerDoubleShot s" "playerShotDue s" "length (playerBullets s) < 5"
    and "the_player s = Some q"
  shows "playerBullets (handlePlayerShooting s) =
           playerBullets s @ [playerBullet q (-10), playerBullet q 10]"
  using assms
  by (simp add: handlePlayerShooting_def playerShotDue_def Let_def PLAYER_SHOOT_INTERVAL_def)

lemma handlePlayerShooting_single:
  assumes "\<not> playerDoubleShot s" "playerShotDue s" "length (playerBullets s) < 3"
    and "the_player s = Some q"
  shows "playerBullets (handlePlayerShooting s) = playerBullets s @ [playerBullet q 0]"
  using assms
  by (simp add: handlePlayerShooting_def playerShotDue_def Let_def PLAYER_SHOOT_INTERVAL_def)

lemma handlePlayerMovement_shot:
  "playerShotDue (handlePlayerMovement p s) = playerShotDue s"
  "playerDoubleShot (handlePlayerMovement p s) = playerDoubleShot s"
  "playerBullets (handlePlayerMovement p s) = playerBullets s"
  by (simp_all add: handlePlayerMovement_def playerShotDue_def Let_def split: option.splits)

lemma update_shot:
  assumes "gameActive st" "playerShotDue st" "the_player (handlePlayerMovement p st) = Some q"
  shows "playerDoubleShot st \<Longrightarrow> length (playerBullets st) < 5 \<Longrightarrow>
         playerBullets (update p r1 r2 st) =
           filter (\<lambda>b. \<not> bullet_y b < 0)
             (playerBullets st @ [playerBullet q (-10), playerBullet q 10])"
    and "\<not> playerDoubleShot st \<Longrightarrow> length (playerBullets st) < 3 \<Longrightarrow>
         playerBullets (update p r1 r2 st) =
           filter (\<lambda>b. \<not> bullet_y b < 0) (playerBullets st @ [playerBullet q 0])"
proof -
  let ?h = "handlePlayerMovement p st"
  have d: "playerShotDue ?h" using assms(2) by (simp add: handlePlayerMovement_shot)
  show "playerDoubleShot st \<Longrightarrow> length (playerBullets st) < 5 \<Longrightarrow>
         playerBullets (update p r1 r2 st) =
           filter (\<lambda>b. \<not> bullet_y b < 0)
             (playerBullets st @ [playerBullet q (-10), playerBullet q 10])"
    using handlePlayerShooting_double[of ?h q] d assms(3)
    by (simp add: update_playerBullets[OF assms(1)] handlePlayerMovement_shot)
  show "\<not> playerDoubleShot st \<Longrightarrow> length (playerBullets st) < 3 \<Longrightarrow>
         playerBullets (update p r1 r2 st) =
           filter (\<lambda>b. \<not> bullet_y b < 0) (playerBullets st @ [playerBullet q 0])"
    using handlePlayerShooting_single[of ?h q] d assms(3)
    by (simp add: update_playerBullets[OF assms(1)] handlePlayerMovement_shot)
qed

lemma clockBefore_atMost: "clockBefore E ev \<Longrightarrow> clockAtMost E ev"
  by (cases ev) simp_all

lemma step_buff_before:
  assumes "\<not> isCollect ev" "clockBefore E ev"
    and "powerUpEndTime s = E" "time_now s < E" "playerDoubleShot s"
  shows "powerUpEndTime (step s ev) = E \<and> time_now (step s ev) < E \<and>
         playerDoubleShot (step s ev)"
proof (cases ev)
  case (ClockUpdate t')
  then show ?thesis using assms by (simp add: clockUpdate_frame)
next
  case (Update p r1 r2)
  then show ?thesis using assms by (simp add: update_frame update_doubleShot)
next
  case (HitEnemy b e)
  then show ?thesis using assms by (simp add: step_hit_frame del: step.simps)
next
  case (HitPlayer b)
  then show ?thesis using assms by (simp add: step_hit_frame del: step.simps)
next
  case (PhysicsStep dt)
  then show ?thesis using assms by (simp add: physicsStep_frame)
next
  case (CollectPowerUp pu)
  then show ?thesis using assms by simp
qed

lemma run_buff_before:
  assumes "\<forall>ev \<in> set evs. \<not> isCollect ev \<and> clockBefore E ev"
    and "powerUpEndTime s = E" "time_now s < E" "playerDoubleShot s"
  shows "powerUpEndTime (run s evs) = E \<and> time_now (run s evs) < E \<and>
         playerDoubleShot (run s evs)"
  using assms
proof (induction evs arbitrary: s)
  case Nil
  then show ?case by (simp add: run_def)
next
  case (Cons ev evs)
  have r: "run s (ev # evs) = run (step s ev) evs" by (simp add: run_def)
  have st: "powerUpEndTime (step s ev) = E \<and> time_now (step s ev) < E \<and>
            playerDoubleShot (step s ev)"
    using step_buff_before[of ev E s] Cons.prems by simp
  show ?case unfolding r using Cons.IH[of "step s ev"] st Cons.prems(1) by simp
qed

text \<open>
  C7, as amended. Collecting a power-up (a live one: the handler ignores a destroyed
  object) when the clock shows \<open>time_now s\<close> activates double-shot and sets the expiry to
  \<open>time_now s + 10000\<close>, whatever the state was before, so a second collection while
  buffed overwrites the expiry with the new collection time plus 10000. Let nothing be
  collected afterwards and the clock not run backwards. At the start of a frame the
  double-shot flag is still set if every earlier clock value was before the expiry,
  whatever the time of the frame itself; after the update of a frame at time \<open>t\<close> in a
  running game it is set if and only if \<open>t < time_now s + 10000\<close>, and once cleared it
  stays cleared. The shot of a frame goes by the flag at the start of the frame
  (\<open>update\<close> calls \<open>handlePlayerShooting\<close> before \<open>checkPowerUpExpiration\<close>): with the flag
  set, a due shot with fewer than five bullets in flight adds the pair; with the flag
  cleared, a due shot with fewer than three bullets in flight adds a single bullet. So the
  first frame at or past the expiry still fires the pair, and the frames after it fire
  single bullets.
\<close>

theorem collectPowerUp_expiry:
  assumes "powerup_active pu" and "powerup_active pu'"
    and "\<forall>ev \<in> set evs. \<not> isCollect ev \<and> clockAtMost t ev"
    and "time_now s \<le> t"
    and "gameActive (run (collectPowerUp (Some pu) s) evs)"
    and "frame = clockUpdate t (run (collectPowerUp (Some pu) s) evs)"
  shows "powerUpEndTime (collectPowerUp (Some pu) s) = time_now s + 10000 \<and>
         playerDoubleShot (collectPowerUp (Some pu) s) \<and>
         powerUpEndTime (collectPowerUp (Some pu') frame) = t + 10000 \<and>
         ((\<forall>ev \<in> set evs. clockBefore (time_now s + 10000) ev) \<longrightarrow> playerDoubleShot frame) \<and>
         playerDoubleShot (update p r1 r2 frame) = (t < time_now s + 10000) \<and>
         (time_now s + 10000 \<le> t \<and> (\<forall>ev \<in> set evs'. \<not> isCollect ev) \<longrightarrow>
            \<not> playerDoubleShot (run (update p r1 r2 frame) evs')) \<and>
         (gameActive st \<and> playerShotDue st \<and> the_player (handlePlayerMovement p st) = Some q
            \<longrightarrow>
            (playerDoubleShot st \<and> length (playerBullets st) < 5 \<longrightarrow>
               playerBullets (update p r1 r2 st) =
                 filter (\<lambda>b. \<not> bullet_y b < 0)
                   (playerBullets st @ [playerBullet q (-10), playerBullet q 10])) \<and>
            (\<not> playerDoubleShot st \<and> length (playerBullets st) < 3 \<longrightarrow>
               playerBullets (update p r1 r2 st) =
                 filter (\<lambda>b. \<not> bullet_y b < 0) (playerBullets st @ [playerBullet q 0])))"
proof -
  let ?s0 = "collectPowerUp (Some pu) s"
  have e: "powerUpEndTime ?s0 = time_now s + 10000" and d: "playerDoubleShot ?s0"
    and n: "time_now ?s0 = time_now s"
    using assms(1) by (simp_all add: collectPowerUp_def POWERUP_DURATION_def)
  have inv: "powerUpEndTime (run ?s0 evs) = time_now s + 10000 \<and>
             (t < time_now s + 10000 \<longrightarrow> playerDoubleShot (run ?s0 evs))"
    using run_buff_invariant[OF assms(3), of ?s0 "time_now s + 10000"] e d n assms(4) by simp
  have g: "gameActive frame" unfolding assms(6) using assms(5) by (simp add: clockUpdate_frame)
  have u: "playerDoubleShot (update p r1 r2 frame) = (t < time_now s + 10000)"
    unfolding assms(6) using assms(5) inv by (auto simp add: update_doubleShot clockUpdate_frame)
  have r: "powerUpEndTime (collectPowerUp (Some pu') frame) = t + 10000"
    unfolding assms(6) using assms(2)
    by (simp add: collectPowerUp_def POWERUP_DURATION_def clockUpdate_frame)
  have b: "playerDoubleShot frame" if "\<forall>ev \<in> set evs. clockBefore (time_now s + 10000) ev"
  proof -
    have "\<forall>ev \<in> set evs. \<not> isCollect ev \<and> clockBefore (time_now s + 10000) ev"
      using assms(3) that by simp
    from run_buff_before[OF this e _ d] n show ?thesis
      unfolding assms(6) by (simp add: clockUpdate_frame)
  qed
  have off: "\<not> playerDoubleShot (run (update p r1 r2 frame) evs')"
    if "time_now s + 10000 \<le> t \<and> (\<forall>ev \<in> set evs'. \<not> isCollect ev)"
    using run_flag_off[of evs' "update p r1 r2 frame"] u that by simp
  have a1: "playerBullets (update p r1 r2 st) =
              filter (\<lambda>b. \<not> bullet_y b < 0)
                (playerBullets st @ [playerBullet q (-10), playerBullet q 10])"
    if "gameActive st \<and> playerShotDue st \<and> the_player (handlePlayerMovement p st) = Some q"
      "playerDoubleShot st \<and> length (playerBullets st) < 5"
    using update_shot(1)[of st p q r1 r2] that by simp
  have a2: "playerBullets (update p r1 r2 st) =
              filter (\<lambda>b. \<not> bullet_y b < 0) (playerBullets st @ [playerBullet q 0])"
    if "gameActive st \<and> playerShotDue st \<and> the_player (handlePlayerMovement p st) = Some q"
      "\<not> playerDoubleShot st \<and> length (playerBullets st) < 3"
    using update_shot(2)[of st p q r1 r2] that by simp
  show ?thesis using e d r b u off a1 a2 by blast
qed

lemmas example_defs =
  exampleGame_def examplePlayer_def examplePowerUp_def exampleEnemy_def exampleBody_def

lemmas method_defs =
  update_def handlePlayerMovement_def handlePlayerShooting_def handleEnemyMovement_def
  handleEnemyShooting_def cleanupBullets_def checkSpawnNewRow_def checkPowerUpExpiration_def
  checkGameOver_def gameOver_def clockUpdate_def collectPowerUp_def topmostEnemyY_def
  playerBullet_def run_def PLAYER_SHOOT_INTERVAL_def POWERUP_DURATION_def BULLET_SPEED_def

theorem collectPowerUp_expiry_witness:
  "powerUpEndTime (collectPowerUp (Some examplePowerUp) exampleGame) = 11000 \<and>
   time_now expiryFrame = 11000 \<and>
   playerDoubleShot expiryFrame \<and>
   playerBullets expiryFrame = [] \<and>
   map bullet_x (playerBullets (update None (\<lambda>_. 0) (\<lambda>_. 0) expiryFrame)) = [290, 310] \<and>
   \<not> playerDoubleShot (update None (\<lambda>_. 0) (\<lambda>_. 0) expiryFrame) \<and>
   map bullet_x
     (playerBullets
        (update None (\<lambda>_. 0) (\<lambda>_. 0)
           (clockUpdate 11750 (update None (\<lambda>_. 0) (\<lambda>_. 0) expiryFrame))))
     = [290, 310, 300] \<and>
   powerUpEndTime (collectPowerUp (Some examplePowerUp) expiryFrame) = 21000 \<and>
   playerDoubleShot
     (update None (\<lambda>_. 0) (\<lambda>_. 0)
        (clockUpdate 10999
           (run (collectPowerUp (Some examplePowerUp) exampleGame)
              [ClockUpdate 10250, Update None (\<lambda>_. 0) (\<lambda>_. 0), PhysicsStep 750]))) \<and>
   playerDoubleShot
     (clockUpdate 11000
        (run (collectPowerUp (Some examplePowerUp) exampleGame)
           [ClockUpdate 10250, Update None (\<lambda>_. 0) (\<lambda>_. 0), PhysicsStep 750])) \<and>
   \<not> playerDoubleShot
     (update None (\<lambda>_. 0) (\<lambda>_. 0)
        (clockUpdate 11000
           (run (collectPowerUp (Some examplePowerUp) exampleGame)
              [ClockUpdate 10250, Update None (\<lambda>_. 0) (\<lambda>_. 0), PhysicsStep 750])))"
proof -
  let ?c = "collectPowerUp (Some examplePowerUp) exampleGame"
  let ?evs = "[ClockUpdate 10250, Update None (\<lambda>_. 0) (\<lambda>_. 0), PhysicsStep 750]"
  let ?u = "update None (\<lambda>_. 0) (\<lambda>_. 0) expiryFrame"
  let ?f2 = "clockUpdate 11750 ?u"
  have a: "powerup_active examplePowerUp" by (simp add: examplePowerUp_def)
  have n: "time_now exampleGame = 1000" by (simp add: exampleGame_def)
  have e0: "\<forall>ev \<in> set []. \<not> isCollect ev \<and> clockAtMost 11000 ev" by simp
  have g: "gameActive (run ?c [])" by (simp add: example_defs method_defs)
  have f: "expiryFrame = clockUpdate 11000 (run ?c [])" by (simp add: expiryFrame_def run_def)
  have t: "time_now expiryFrame = 11000" by (simp add: expiryFrame_def clockUpdate_frame)
  have st: "gameActive expiryFrame" "playerShotDue expiryFrame"
    "the_player (handlePlayerMovement None expiryFrame) = Some examplePlayer"
    "playerBullets expiryFrame = []"
    by (simp_all add: expiryFrame_def example_defs method_defs playerShotDue_def Let_def)
  have st2: "gameActive ?f2" "playerShotDue ?f2"
    "the_player (handlePlayerMovement None ?f2) = Some examplePlayer"
    "length (playerBullets ?f2) = 2"
    by (simp_all add: expiryFrame_def example_defs method_defs playerShotDue_def Let_def)
  note th = collectPowerUp_expiry[OF a a e0 _ g f, of None "\<lambda>_. 0" "\<lambda>_. 0"]
  have b: "playerDoubleShot expiryFrame"
    using th[of "[]" expiryFrame examplePlayer] n by simp
  have off: "\<not> playerDoubleShot ?u"
    using th[of "[]" expiryFrame examplePlayer] n by simp
  then have off2: "\<not> playerDoubleShot ?f2" by (simp add: clockUpdate_frame)
  have s1: "playerBullets ?u = filter (\<lambda>b. \<not> bullet_y b < 0)
              (playerBullets expiryFrame @
                 [playerBullet examplePlayer (-10), playerBullet examplePlayer 10])"
    using th[of "[]" expiryFrame examplePlayer] n st b by simp
  have s2: "playerBullets (update None (\<lambda>_. 0) (\<lambda>_. 0) ?f2) =
              filter (\<lambda>b. \<not> bullet_y b < 0)
                (playerBullets ?f2 @ [playerBullet examplePlayer 0])"
    using th[of "[]" ?f2 examplePlayer] n st2 off2 by simp
  have p2: "playerBullets ?f2 = playerBullets ?u" by (simp add: clockUpdate_frame)
  have x1: "map bullet_x (playerBullets ?u) = [290, 310]"
    unfolding s1 st(4) by (simp add: playerBullet_def examplePlayer_def)
  have x2: "map bullet_x (playerBullets (update None (\<lambda>_. 0) (\<lambda>_. 0) ?f2)) = [290, 310, 300]"
    unfolding s2 p2 s1 st(4) by (simp add: playerBullet_def examplePlayer_def)
  have r: "powerUpEndTime (collectPowerUp (Some examplePowerUp) expiryFrame) = 21000"
    using th[of "[]" expiryFrame examplePlayer] n by simp
  have e: "powerUpEndTime ?c = 11000"
    using th[of "[]" expiryFrame examplePlayer] n by simp
  have e1: "\<forall>ev \<in> set ?evs. \<not> isCollect ev \<and> clockAtMost 10999 ev"
    and e2: "\<forall>ev \<in> set ?evs. \<not> isCollect ev \<and> clockAtMost 11000 ev"
    by simp_all
  have g2: "gameActive (run ?c ?evs)"
    by (simp add: example_defs method_defs physicsStep_def moveBullet_def Let_def)
  have w1: "playerDoubleShot (update None (\<lambda>_. 0) (\<lambda>_. 0) (clockUpdate 10999 (run ?c ?evs)))"
    using collectPowerUp_expiry[OF a a e1 _ g2 refl, of None "\<lambda>_. 0" "\<lambda>_. 0" "[]"
            exampleGame examplePlayer] n
    by simp
  have w2: "playerDoubleShot (clockUpdate 11000 (run ?c ?evs))"
    "\<not> playerDoubleShot (update None (\<lambda>_. 0) (\<lambda>_. 0) (clockUpdate 11000 (run ?c ?evs)))"
    using collectPowerUp_expiry[OF a a e2 _ g2 refl, of None "\<lambda>_. 0" "\<lambda>_. 0" "[]"
            exampleGame examplePlayer] n
    by simp_all
  show ?thesis using e t b st(4) x1 off x2 r w1 w2 by simp
qed

text \<open>
  C7 as stated fails at the expiry itself: in the frame whose clock shows exactly the
  expiry (11000, after a collection at 1000) the player still fires the pair of
  double-shot, at \<open>x = 290\<close> and \<open>x = 310\<close>.
\<close>

theorem double_shot_at_expiry_counterexample:
  "powerUpEndTime expiryFrame = 11000 \<and> time_now expiryFrame = 11000 \<and>
   playerDoubleShot expiryFrame \<and> playerBullets expiryFrame = [] \<and>
   playerBullets (update None (\<lambda>_. 0) (\<lambda>_. 0) expiryFrame)
     = [playerBullet examplePlayer (-10), playerBullet examplePlayer 10] \<and>
   map bullet_x (playerBullets (update None (\<lambda>_. 0) (\<lambda>_. 0) expiryFrame)) = [290, 310]"
  by (simp add: expiryFrame_def example_defs method_defs Let_def)


section \<open>Power-up spawning\<close>

lemma checkSpawnNewRow_cases:
  "(spawnedRowCount (checkSpawnNewRow rnd s) = spawnedRowCount s \<and>
    powerUp (checkSpawnNewRow rnd s) = powerUp s \<and>
    lastPowerUpSpawnRow (checkSpawnNewRow rnd s) = lastPowerUpSpawnRow s) \<or>
   spawnedRowCount (checkSpawnNewRow rnd s) = spawnedRowCount s + 1"
  by (simp add: checkSpawnNewRow_def Let_def spawnPowerUp_frame spawnEnemyRowCentered_frame
        split: option.splits)

lemma checkSpawnNewRow_powerUp_changed:
  "powerUp (checkSpawnNewRow rnd s) \<noteq> powerUp s \<Longrightarrow>
   spawnedRowCount (checkSpawnNewRow rnd s) = spawnedRowCount s + 1 \<and>
   (spawnedRowCount s + 1) mod 10 = 0"
  by (auto simp add: checkSpawnNewRow_def Let_def spawnPowerUp_frame spawnEnemyRowCentered_frame
        POWERUP_SPAWN_AFTER_ROWS_def split: option.splits if_splits)

lemma checkSpawnNewRow_count_mono:
  "spawnedRowCount s \<le> spawnedRowCount (checkSpawnNewRow rnd s)"
  using checkSpawnNewRow_cases[of rnd s] by auto

lemma update_spawn_cases:
  "(spawnedRowCount (update p r1 r2 s) = spawnedRowCount s \<and>
    powerUp (update p r1 r2 s) = powerUp s) \<or>
   (spawnedRowCount (update p r1 r2 s) = spawnedRowCount s + 1 \<and>
    (powerUp (update p r1 r2 s) \<noteq> powerUp s \<longrightarrow> (spawnedRowCount s + 1) mod 10 = 0))"
proof (cases "gameActive s")
  case False
  then show ?thesis by (simp add: update_def)
next
  case True
  let ?m = "cleanupBullets (handleEnemyShooting r1 (handleEnemyMovement
              (handlePlayerShooting (handlePlayerMovement p s))))"
  have m: "spawnedRowCount ?m = spawnedRowCount s" "powerUp ?m = powerUp s"
    by (simp_all add: update_parts_frame)
  have u: "spawnedRowCount (update p r1 r2 s) = spawnedRowCount (checkSpawnNewRow r2 ?m)"
    "powerUp (update p r1 r2 s) = powerUp (checkSpawnNewRow r2 ?m)"
    using True by (simp_all add: update_def checkGameOver_frame checkPowerUpExpiration_frame)
  show ?thesis
    using checkSpawnNewRow_cases[of r2 ?m] checkSpawnNewRow_powerUp_changed[of r2 ?m]
    unfolding u m by auto
qed

lemma step_count_mono: "spawnedRowCount s \<le> spawnedRowCount (step s ev)"
proof (cases ev)
  case (ClockUpdate t)
  then show ?thesis by (simp add: clockUpdate_frame)
next
  case (Update p r1 r2)
  then show ?thesis using update_spawn_cases[of p r1 r2 s] by auto
next
  case (HitEnemy b e)
  then show ?thesis by (simp add: step_hit_frame del: step.simps)
next
  case (HitPlayer b)
  then show ?thesis by (simp add: step_hit_frame del: step.simps)
next
  case (PhysicsStep dt)
  then show ?thesis by (simp add: physicsStep_frame)
next
  case (CollectPowerUp pu)
  then show ?thesis by (simp add: collectPowerUp_frame)
qed

lemma run_count_mono: "spawnedRowCount s \<le> spawnedRowCount (run s evs)"
proof (induction evs arbitrary: s)
  case Nil
  then show ?case by (simp add: run_def)
next
  case (Cons ev evs)
  have "run s (ev # evs) = run (step s ev) evs" by (simp add: run_def)
  then show ?case using Cons.IH[of "step s ev"] step_count_mono[of s ev] by simp
qed

lemma checkSpawnNewRow_skip:
  assumes "lives s > 0" "lastSpawnedRowY s \<noteq> None"
    and "topmostEnemyY (enemies s) = Some topY" "shouldSpawn s topY"
    and "powerUp s = Some pu" "powerup_active pu"
  shows "spawnedRowCount (checkSpawnNewRow rnd s) = spawnedRowCount s + 1"
    and "powerUp (checkSpawnNewRow rnd s) = Some pu"
    and "(spawnedRowCount s + 1) mod 10 = 0 \<Longrightarrow> spawnedRowCount s + 1 \<noteq> lastPowerUpSpawnRow s \<Longrightarrow>
         lastPowerUpSpawnRow (checkSpawnNewRow rnd s) = spawnedRowCount s + 1"
  using assms
  by (simp_all add: checkSpawnNewRow_def Let_def spawnPowerUp_def spawnEnemyRowCentered_def
        POWERUP_SPAWN_AFTER_ROWS_def)

text \<open>
  C10. In a tick in which \<open>checkSpawnNewRow\<close> spawns a row and the row count thereby reaches
  a multiple of 10 while a power-up is still active on the field, the power-up on the
  field is left as it is, no new one is created, and \<open>lastPowerUpSpawnRow\<close> is set to that
  count. The milestone is not served later: in any later frame in which \<open>update\<close> changes
  the power-up on the field, the row count has moved on to a later multiple of 10.
\<close>

theorem spawnPowerUp_skipped_not_deferred:
  assumes "lives s > 0" "lastSpawnedRowY s \<noteq> None"
    and "topmostEnemyY (enemies s) = Some topY" "shouldSpawn s topY"
    and "powerUp s = Some pu" "powerup_active pu"
    and "(spawnedRowCount s + 1) mod 10 = 0"
    and "spawnedRowCount s + 1 \<noteq> lastPowerUpSpawnRow s"
  shows "spawnedRowCount (checkSpawnNewRow rnd s) = spawnedRowCount s + 1 \<and>
         powerUp (checkSpawnNewRow rnd s) = powerUp s \<and>
         lastPowerUpSpawnRow (checkSpawnNewRow rnd s) = spawnedRowCount s + 1 \<and>
         (\<forall>evs p r1 r2.
            powerUp (update p r1 r2 (run (checkSpawnNewRow rnd s) evs))
              \<noteq> powerUp (run (checkSpawnNewRow rnd s) evs) \<longrightarrow>
            spawnedRowCount (update p r1 r2 (run (checkSpawnNewRow rnd s) evs))
              > spawnedRowCount s + 1 \<and>
            spawnedRowCount (update p r1 r2 (run (checkSpawnNewRow rnd s) evs)) mod 10 = 0)"
proof -
  let ?s1 = "checkSpawnNewRow rnd s"
  note sk = checkSpawnNewRow_skip[OF assms(1-6), of rnd]
  have later: "powerUp (update p r1 r2 (run ?s1 evs)) \<noteq> powerUp (run ?s1 evs) \<longrightarrow>
               spawnedRowCount (update p r1 r2 (run ?s1 evs)) > spawnedRowCount s + 1 \<and>
               spawnedRowCount (update p r1 r2 (run ?s1 evs)) mod 10 = 0"
    for evs p r1 r2
    using update_spawn_cases[of p r1 r2 "run ?s1 evs"] run_count_mono[of ?s1 evs] sk(1)
    by auto
  show ?thesis using sk(1) sk(2) sk(3)[OF assms(7,8)] assms(5) later by simp
qed

theorem spawnPowerUp_skipped_not_deferred_witness:
  "spawnedRowCount skipScene = 9 \<and> lastPowerUpSpawnRow skipScene = 0 \<and>
   spawnedRowCount (checkSpawnNewRow (\<lambda>_. 0) skipScene) = 10 \<and>
   powerUp (checkSpawnNewRow (\<lambda>_. 0) skipScene) = Some examplePowerUp \<and>
   lastPowerUpSpawnRow (checkSpawnNewRow (\<lambda>_. 0) skipScene) = 10"
proof -
  have h: "lives skipScene > 0" "lastSpawnedRowY skipScene \<noteq> None"
    "topmostEnemyY (enemies skipScene) = Some 50" "shouldSpawn skipScene 50"
    "powerUp skipScene = Some examplePowerUp" "powerup_active examplePowerUp"
    "(spawnedRowCount skipScene + 1) mod 10 = 0"
    "spawnedRowCount skipScene + 1 \<noteq> lastPowerUpSpawnRow skipScene"
    by (simp_all add: skipScene_def example_defs topmostEnemyY_def shouldSpawn_def)
  have v: "spawnedRowCount skipScene = 9" "lastPowerUpSpawnRow skipScene = 0"
    by (simp_all add: skipScene_def exampleGame_def)
  show ?thesis
    using spawnPowerUp_skipped_not_deferred[OF h, of "\<lambda>_. 0"] v h(5) by simp
qed

section \<open>Hits on the player\<close>

lemma foldl_runCallback_flag:
  "playerHitProcessing (foldl (\<lambda>st dc. runCallback (snd dc) st) s cs) =
     (playerHitProcessing s \<and> filter (\<lambda>dc. snd dc = ResetPlayerHitProcessing) cs = [])"
proof (induction cs arbitrary: s)
  case Nil
  then show ?case by simp
next
  case (Cons c cs)
  show ?case by (cases "snd c") (simp_all add: Cons.IH)
qed

lemma filter_due_hitReset:
  "filter (\<lambda>dc. fst dc \<le> t \<and> snd dc = ResetPlayerHitProcessing) cs = [] \<longleftrightarrow>
   filter (\<lambda>d. d \<le> t) (map fst (filter (\<lambda>dc. snd dc = ResetPlayerHitProcessing) cs)) = []"
  by (induction cs) auto

lemma clockUpdate_flag:
  "playerHitProcessing (clockUpdate t s) =
     (playerHitProcessing s \<and> filter (\<lambda>d. d \<le> t) (hitResetCalls s) = [])"
  by (simp add: clockUpdate_def Let_def foldl_runCallback_flag filter_due_hitReset hitResetCalls_def)

lemma clockUpdate_hitResetCalls:
  "hitResetCalls (clockUpdate t s) = filter (\<lambda>d. \<not> d \<le> t) (hitResetCalls s)"
proof -
  have "map fst (filter (\<lambda>dc. snd dc = ResetPlayerHitProcessing) (filter (\<lambda>dc. \<not> fst dc \<le> t) cs))
        = filter (\<lambda>d. \<not> d \<le> t) (map fst (filter (\<lambda>dc. snd dc = ResetPlayerHitProcessing) cs))"
    for cs :: "(real \<times> callback) list"
    by (induction cs) auto
  then show ?thesis
    by (simp add: clockUpdate_def Let_def foldl_runCallback_frame hitResetCalls_def)
qed

lemma update_delayedCalls:
  "delayedCalls (update p r1 r2 s) = delayedCalls s \<or>
   (\<exists>d. delayedCalls (update p r1 r2 s) = delayedCalls s @ [(d, ResetRowShooting)])"
proof (cases "gameActive s")
  case False
  then show ?thesis by (simp add: update_def)
next
  case True
  let ?m = "handleEnemyMovement (handlePlayerShooting (handlePlayerMovement p s))"
  have m: "delayedCalls ?m = delayedCalls s" by (simp add: update_parts_frame)
  have u: "delayedCalls (update p r1 r2 s) = delayedCalls (handleEnemyShooting r1 ?m)"
    using True by (simp add: update_def update_parts_frame)
  show ?thesis using handleEnemyShooting_delayedCalls[of r1 ?m] unfolding u m by auto
qed

lemma update_hitResetCalls: "hitResetCalls (update p r1 r2 s) = hitResetCalls s"
  using update_delayedCalls[of p r1 r2 s] by (auto simp: hitResetCalls_def)

lemma hitPlayer_ignored: "playerHitProcessing s \<Longrightarrow> hitPlayer b pl s = s"
  by (simp add: hitPlayer_def)

lemma hitPlayer_processed:
  assumes "\<not> playerHitProcessing s" "obj_active b" "the_player s \<noteq> None" "lives s > 0"
  shows "lives (hitPlayer b pl s) = lives s - 1"
    and "playerHitProcessing (hitPlayer b pl s)"
    and "hitResetCalls (hitPlayer b pl s) = hitResetCalls s @ [time_now s + 500]"
    and "gameActive (hitPlayer b pl s) = (gameActive s \<and> lives s > 1)"
proof -
  from assms(3) obtain p where p: "the_player s = Some p" by auto
  show "lives (hitPlayer b pl s) = lives s - 1"
    using assms p
    by (cases "lives s \<le> 1") (simp_all add: hitPlayer_def Let_def gameOver_def destroy_frame)
  show "playerHitProcessing (hitPlayer b pl s)"
    using assms p
    by (cases "lives s \<le> 1") (simp_all add: hitPlayer_def Let_def gameOver_def destroy_frame)
  show "hitResetCalls (hitPlayer b pl s) = hitResetCalls s @ [time_now s + 500]"
    using assms p
    by (cases "lives s \<le> 1")
       (simp_all add: hitPlayer_def Let_def gameOver_def destroy_frame hitResetCalls_def)
  show "gameActive (hitPlayer b pl s) = (gameActive s \<and> lives s > 1)"
    using assms p
    by (cases "lives s \<le> 1") (simp_all add: hitPlayer_def Let_def gameOver_def destroy_frame)
qed

lemma hitPlayer_unprocessed:
  assumes "playerHitProcessing s \<or> \<not> obj_active b \<or> the_player s = None \<or> lives s \<le> 0"
  shows "hitPlayer b pl s = s"
  using assms by (auto simp add: hitPlayer_def split: option.splits)

lemma hitPlayer_hitResetCalls:
  "hitResetCalls (hitPlayer b pl s) = hitResetCalls s \<and>
     playerHitProcessing (hitPlayer b pl s) = playerHitProcessing s \<or>
   \<not> playerHitProcessing s \<and> playerHitProcessing (hitPlayer b pl s) \<and>
   hitResetCalls (hitPlayer b pl s) = hitResetCalls s @ [time_now s + 500]"
proof (cases "playerHitProcessing s \<or> \<not> obj_active b \<or> the_player s = None \<or> lives s \<le> 0")
  case True
  then show ?thesis using hitPlayer_unprocessed[of s b pl] by simp
next
  case False
  then show ?thesis using hitPlayer_processed[of s b pl] by simp
qed

lemma step_HitPlayer_hitResetCalls:
  "hitResetCalls (step s (HitPlayer b)) = hitResetCalls s \<and>
     playerHitProcessing (step s (HitPlayer b)) = playerHitProcessing s \<or>
   \<not> playerHitProcessing s \<and> playerHitProcessing (step s (HitPlayer b)) \<and>
   hitResetCalls (step s (HitPlayer b)) = hitResetCalls s @ [time_now s + 500]"
proof (cases "the_player s")
  case None
  then show ?thesis by simp
next
  case (Some p)
  then show ?thesis using hitPlayer_hitResetCalls[of "PlayerObj p" "BulletObj b" s] by simp
qed

lemma step_HitPlayer_ignored: "playerHitProcessing s \<Longrightarrow> step s (HitPlayer b) = s"
  by (simp add: hitPlayer_ignored split: option.splits)

lemma step_hitGuardInv: "hitGuardInv s \<Longrightarrow> hitGuardInv (step s ev)"
proof (cases ev)
  case (ClockUpdate t)
  assume h: "hitGuardInv s"
  show ?thesis
  proof (cases "hitResetCalls s")
    case Nil
    then show ?thesis using ClockUpdate h
      by (simp add: hitGuardInv_def clockUpdate_hitResetCalls clockUpdate_flag)
  next
    case (Cons d ds)
    then have "ds = []" "playerHitProcessing s" using h by (auto simp: hitGuardInv_def split: if_splits)
    then show ?thesis using ClockUpdate Cons
      by (simp add: hitGuardInv_def clockUpdate_hitResetCalls clockUpdate_flag)
  qed
next
  case (Update p r1 r2)
  assume "hitGuardInv s"
  then show ?thesis using Update by (simp add: hitGuardInv_def update_hitResetCalls update_frame)
next
  case (HitEnemy b e)
  assume "hitGuardInv s"
  then show ?thesis using HitEnemy
    by (simp add: hitGuardInv_def hitResetCalls_def step_hit_frame del: step.simps)
next
  case (HitPlayer b)
  assume "hitGuardInv s"
  then show ?thesis using HitPlayer step_HitPlayer_hitResetCalls[of s b]
    by (auto simp add: hitGuardInv_def simp del: step.simps split: if_splits)
next
  case (PhysicsStep dt)
  assume "hitGuardInv s"
  then show ?thesis using PhysicsStep
    by (simp add: hitGuardInv_def hitResetCalls_def physicsStep_frame)
next
  case (CollectPowerUp pu)
  assume "hitGuardInv s"
  then show ?thesis using CollectPowerUp
    by (simp add: hitGuardInv_def hitResetCalls_def collectPowerUp_frame)
qed

lemma run_hitGuardInv: "hitGuardInv s \<Longrightarrow> hitGuardInv (run s evs)"
proof (induction evs arbitrary: s)
  case Nil
  then show ?case by (simp add: run_def)
next
  case (Cons ev evs)
  have "run s (ev # evs) = run (step s ev) evs" by (simp add: run_def)
  then show ?case using Cons.IH[OF step_hitGuardInv[OF Cons.prems]] by simp
qed

text \<open>While the reset is pending nothing clears the flag or touches the lives.\<close>

lemma step_hit_pending:
  assumes "clockBefore T ev"
    and "playerHitProcessing s" "lives s = L" "hitResetCalls s = [T]"
  shows "playerHitProcessing (step s ev) \<and> lives (step s ev) = L \<and> hitResetCalls (step s ev) = [T]"
proof (cases ev)
  case (ClockUpdate t)
  with assms show ?thesis
    by (simp add: clockUpdate_flag clockUpdate_hitResetCalls clockUpdate_frame)
next
  case (Update p r1 r2)
  with assms show ?thesis by (simp add: update_frame update_hitResetCalls)
next
  case (HitEnemy b e)
  with assms show ?thesis by (simp add: step_hit_frame hitResetCalls_def del: step.simps)
next
  case (HitPlayer b)
  with assms show ?thesis by (simp add: step_HitPlayer_ignored del: step.simps)
next
  case (PhysicsStep dt)
  with assms show ?thesis by (simp add: physicsStep_frame hitResetCalls_def)
next
  case (CollectPowerUp pu)
  with assms show ?thesis by (simp add: collectPowerUp_frame hitResetCalls_def)
qed

lemma run_hit_pending:
  assumes "\<forall>ev \<in> set evs. clockBefore T ev"
    and "playerHitProcessing s" "lives s = L" "hitResetCalls s = [T]"
  shows "playerHitProcessing (run s evs) \<and> lives (run s evs) = L \<and> hitResetCalls (run s evs) = [T]"
  using assms
proof (induction evs arbitrary: s)
  case Nil
  then show ?case by (simp add: run_def)
next
  case (Cons ev evs)
  have st: "playerHitProcessing (step s ev) \<and> lives (step s ev) = L \<and> hitResetCalls (step s ev) = [T]"
    using step_hit_pending[of T ev s L] Cons.prems by simp
  have "run s (ev # evs) = run (step s ev) evs" by (simp add: run_def)
  then show ?case using Cons.IH[of "step s ev"] st Cons.prems(1) by simp
qed

text \<open>
  C3. Let the scene be reachable from a state without pending delayed calls, with
  \<open>playerHitProcessing\<close> clear, a player and at least one life, and let \<open>hitPlayer\<close> be
  called when the clock shows \<open>time_now s\<close>, with a live object in the position of the
  bullet (the handler tests no more of its arguments; the physics world passes the player
  there). That call takes exactly one life and sets the flag. Whatever happens before the
  clock reaches \<open>time_now s + 500\<close> (further overlaps reported in the same tick or in later
  frames, frame updates, physics steps, kills, power-up collections), the flag stays set,
  every further call of \<open>hitPlayer\<close>, with whatever arguments, returns the state
  unchanged, and the lives stay at one less than before; the first clock update at or
  after \<open>time_now s + 500\<close> runs the delayed call and clears the flag.
\<close>

theorem hitPlayer_once_per_cooldown:
  assumes "delayedCalls s0 = []" and "s = run s0 pre"
    and "\<not> playerHitProcessing s"
    and "obj_active b" "the_player s \<noteq> None" "lives s > 0"
    and "\<forall>ev \<in> set evs. clockBefore (time_now s + 500) ev"
    and "t \<ge> time_now s + 500"
  shows "lives (hitPlayer b pl s) = lives s - 1 \<and>
         hitPlayer b' pl' (hitPlayer b pl s) = hitPlayer b pl s \<and>
         lives (run (hitPlayer b pl s) evs) = lives s - 1 \<and>
         playerHitProcessing (run (hitPlayer b pl s) evs) \<and>
         hitPlayer b' pl' (run (hitPlayer b pl s) evs) = run (hitPlayer b pl s) evs \<and>
         \<not> playerHitProcessing (clockUpdate t (run (hitPlayer b pl s) evs))"
proof -
  have "hitGuardInv s0" using assms(1) by (simp add: hitGuardInv_def hitResetCalls_def)
  then have "hitGuardInv s" unfolding assms(2) by (rule run_hitGuardInv)
  then have none: "hitResetCalls s = []" using assms(3) by (simp add: hitGuardInv_def)
  note p = hitPlayer_processed[OF assms(3-6), of pl]
  have pend: "hitResetCalls (hitPlayer b pl s) = [time_now s + 500]" using p(3) none by simp
  have r: "playerHitProcessing (run (hitPlayer b pl s) evs) \<and>
           lives (run (hitPlayer b pl s) evs) = lives s - 1 \<and>
           hitResetCalls (run (hitPlayer b pl s) evs) = [time_now s + 500]"
    using run_hit_pending[OF assms(7) p(2) p(1) pend] .
  have c: "\<not> playerHitProcessing (clockUpdate t (run (hitPlayer b pl s) evs))"
    using r assms(8) by (simp add: clockUpdate_flag)
  show ?thesis using p(1) p(2) r c by (simp add: hitPlayer_ignored)
qed

text \<open>
  Three enemy bullets overlap the player; the physics world reports the first overlap,
  then a second one in the same tick and a third one 499 milliseconds later.
\<close>

theorem hitPlayer_once_per_cooldown_witness:
  "lives overlapScene = 3 \<and>
   lives (step overlapScene (HitPlayer (exampleBullet 290 1430))) = 2 \<and>
   lives (run (step overlapScene (HitPlayer (exampleBullet 290 1430)))
            [HitPlayer (exampleBullet 310 1435), ClockUpdate 1499,
             HitPlayer (exampleBullet 300 1420)]) = 2 \<and>
   playerHitProcessing
       (run (step overlapScene (HitPlayer (exampleBullet 290 1430)))
            [HitPlayer (exampleBullet 310 1435), ClockUpdate 1499,
             HitPlayer (exampleBullet 300 1420)]) \<and>
   \<not> playerHitProcessing
       (clockUpdate 1500
          (run (step overlapScene (HitPlayer (exampleBullet 290 1430)))
            [HitPlayer (exampleBullet 310 1435), ClockUpdate 1499,
             HitPlayer (exampleBullet 300 1420)]))"
proof -
  have d: "delayedCalls overlapScene = []" "overlapScene = run overlapScene []"
    by (simp_all add: overlapScene_def exampleGame_def run_def)
  have h: "\<not> playerHitProcessing overlapScene"
    "obj_active (PlayerObj examplePlayer)" "the_player overlapScene \<noteq> None"
    "lives overlapScene > 0"
    by (simp_all add: overlapScene_def exampleGame_def examplePlayer_def)
  have n: "time_now overlapScene = 1000" "lives overlapScene = 3"
    by (simp_all add: overlapScene_def exampleGame_def)
  have e: "\<forall>ev \<in> set [HitPlayer (exampleBullet 310 1435), ClockUpdate 1499,
             HitPlayer (exampleBullet 300 1420)]. clockBefore (time_now overlapScene + 500) ev"
    by (simp add: n)
  have t: "1500 \<ge> time_now overlapScene + 500" by (simp add: n)
  have st: "step overlapScene (HitPlayer (exampleBullet 290 1430))
              = hitPlayer (PlayerObj examplePlayer) (BulletObj (exampleBullet 290 1430))
                  overlapScene"
    by (simp add: overlapScene_def exampleGame_def)
  show ?thesis
    unfolding st
    using hitPlayer_once_per_cooldown[OF d h e t,
            of "BulletObj (exampleBullet 290 1430)"] n
    by simp
qed

section \<open>Score, lives and the end of the session\<close>

lemma hitEnemy_score:
  "score (hitEnemy b e s) =
     (if obj_active b \<and> obj_active e
      then score s + (if obj_isSuperAlien e then 7 else 5) else score s)"
  by (simp add: hitEnemy_def Let_def updateScore_def destroy_frame
        split: gameObject.splits option.splits)

lemma step_HitEnemy_score:
  "score (step s (HitEnemy b e)) =
     (if enemy_active e \<and> bullet_active b then score s + 5 else score s)"
  by (simp add: hitEnemy_score)

lemma hitPlayer_lives:
  "lives (hitPlayer b pl s) = lives s \<or> (lives s > 0 \<and> lives (hitPlayer b pl s) = lives s - 1)"
proof (cases "playerHitProcessing s \<or> \<not> obj_active b \<or> the_player s = None \<or> lives s \<le> 0")
  case True
  then show ?thesis using hitPlayer_unprocessed[of s b pl] by simp
next
  case False
  then show ?thesis using hitPlayer_processed(1)[of s b pl] by simp
qed

lemma hitPlayer_gameActive:
  "gameActive (hitPlayer b pl s) \<Longrightarrow>
   gameActive s \<and> lives (hitPlayer b pl s) > 0 \<or> lives (hitPlayer b pl s) = lives s"
proof (cases "playerHitProcessing s \<or> \<not> obj_active b \<or> the_player s = None \<or> lives s \<le> 0")
  case True
  then show ?thesis using hitPlayer_unprocessed[of s b pl] by simp
next
  case False
  assume "gameActive (hitPlayer b pl s)"
  then show ?thesis
    using False hitPlayer_processed(1)[of s b pl] hitPlayer_processed(4)[of s b pl] by simp
qed

lemma hitPlayer_gameActive_mono: "\<not> gameActive s \<Longrightarrow> \<not> gameActive (hitPlayer b pl s)"
proof (cases "playerHitProcessing s \<or> \<not> obj_active b \<or> the_player s = None \<or> lives s \<le> 0")
  case True
  assume "\<not> gameActive s"
  then show ?thesis using True hitPlayer_unprocessed[of s b pl] by simp
next
  case False
  assume "\<not> gameActive s"
  then show ?thesis using False hitPlayer_processed(4)[of s b pl] by simp
qed

lemma hitPlayer_end:
  assumes "gameActive s" "\<not> gameActive (hitPlayer b pl s)"
  shows "lives s = 1 \<and> lives (hitPlayer b pl s) = 0"
proof (cases "playerHitProcessing s \<or> \<not> obj_active b \<or> the_player s = None \<or> lives s \<le> 0")
  case True
  then show ?thesis using assms hitPlayer_unprocessed[of s b pl] by simp
next
  case False
  then show ?thesis
    using assms hitPlayer_processed(1)[of s b pl] hitPlayer_processed(4)[of s b pl] by simp
qed

lemma checkGameOver_eq:
  "checkGameOver s = (if enemyReachedPlayer s then gameOver s else s)"
  by (auto simp add: checkGameOver_def enemyReachedPlayer_def Let_def split: option.splits)

lemma gameOver_reached: "enemyReachedPlayer (gameOver s) = enemyReachedPlayer s"
  by (cases "the_player s") (simp_all add: enemyReachedPlayer_def gameOver_def)

lemma checkGameOver_reached: "enemyReachedPlayer (checkGameOver s) = enemyReachedPlayer s"
  by (simp add: checkGameOver_eq gameOver_reached)

lemma update_ends:
  assumes "gameActive s"
  shows "gameActive (update p r1 r2 s) = (\<not> enemyReachedPlayer (update p r1 r2 s))"
proof -
  let ?m = "checkPowerUpExpiration (checkSpawnNewRow r2 (cleanupBullets
              (handleEnemyShooting r1 (handleEnemyMovement
                (handlePlayerShooting (handlePlayerMovement p s))))))"
  have u: "update p r1 r2 s = checkGameOver ?m" using assms by (simp add: update_def)
  have a: "gameActive ?m" using assms by (simp add: update_parts_frame)
  have r: "enemyReachedPlayer (checkGameOver ?m) = enemyReachedPlayer ?m"
    by (rule checkGameOver_reached)
  have g: "gameActive (checkGameOver ?m) = (\<not> enemyReachedPlayer ?m)"
    using a by (simp add: checkGameOver_eq gameOver_def)
  show ?thesis unfolding u r by (rule g)
qed

lemma step_session:
  "score s \<le> score (step s ev) \<and> lives (step s ev) \<le> lives s \<and>
   (\<not> gameActive s \<longrightarrow> \<not> gameActive (step s ev)) \<and>
   (sessionOk s \<longrightarrow> sessionOk (step s ev))"
proof (cases ev)
  case (ClockUpdate t)
  then show ?thesis by (simp add: clockUpdate_frame sessionOk_def)
next
  case (Update p r1 r2)
  then show ?thesis using update_gameActive[of p r1 r2 s]
    by (auto simp add: update_frame sessionOk_def)
next
  case (HitEnemy b e)
  then show ?thesis
    using step_HitEnemy_score[of s b e]
    by (simp add: step_hit_frame sessionOk_def del: step.simps)
next
  case (HitPlayer b)
  show ?thesis
  proof (cases "the_player s")
    case None
    then show ?thesis using HitPlayer by simp
  next
    case (Some q)
    then have st: "step s ev = hitPlayer (PlayerObj q) (BulletObj b) s" using HitPlayer by simp
    show ?thesis
      unfolding st
      using hitPlayer_lives[of "PlayerObj q" "BulletObj b" s]
        hitPlayer_gameActive[of "PlayerObj q" "BulletObj b" s]
        hitPlayer_gameActive_mono[of s "PlayerObj q" "BulletObj b"]
      by (auto simp add: hitPlayer_frame sessionOk_def)
  qed
next
  case (PhysicsStep dt)
  then show ?thesis by (simp add: physicsStep_frame sessionOk_def)
next
  case (CollectPowerUp pu)
  then show ?thesis by (simp add: collectPowerUp_frame sessionOk_def)
qed

lemma run_session:
  "score s \<le> score (run s evs) \<and> lives (run s evs) \<le> lives s \<and>
   (\<not> gameActive s \<longrightarrow> \<not> gameActive (run s evs)) \<and>
   (sessionOk s \<longrightarrow> sessionOk (run s evs))"
proof (induction evs arbitrary: s)
  case Nil
  then show ?case by (simp add: run_def)
next
  case (Cons ev evs)
  have r: "run s (ev # evs) = run (step s ev) evs" by (simp add: run_def)
  show ?case unfolding r using Cons.IH[of "step s ev"] step_session[of s ev] by auto
qed

text \<open>The two ways in which an event ends a running session.\<close>

lemma step_end:
  assumes "gameActive s" "\<not> gameActive (step s ev)"
  shows "(isHitPlayer ev \<and> lives s = 1 \<and> lives (step s ev) = 0) \<or>
         (isUpdate ev \<and> lives (step s ev) = lives s \<and> enemyReachedPlayer (step s ev))"
proof (cases ev)
  case (ClockUpdate t)
  with assms show ?thesis by (simp add: clockUpdate_frame)
next
  case (Update p r1 r2)
  with assms update_ends[OF assms(1), of p r1 r2] show ?thesis by (simp add: update_frame)
next
  case (HitEnemy b e)
  with assms show ?thesis by (simp add: step_hit_frame del: step.simps)
next
  case (HitPlayer b)
  show ?thesis
  proof (cases "the_player s")
    case None
    then show ?thesis using HitPlayer assms by simp
  next
    case (Some q)
    then have st: "step s ev = hitPlayer (PlayerObj q) (BulletObj b) s" using HitPlayer by simp
    show ?thesis
      using hitPlayer_end[OF assms(1), of "PlayerObj q" "BulletObj b"] assms(2) HitPlayer
      unfolding st by simp
  qed
next
  case (PhysicsStep dt)
  with assms show ?thesis by (simp add: physicsStep_frame)
next
  case (CollectPowerUp pu)
  with assms show ?thesis by (simp add: collectPowerUp_frame)
qed

text \<open>
  C4, as amended. Over any sequence of events the score never decreases (a kill, that is
  an overlap of a live bullet with a live enemy, adds 5), the lives never increase and
  never fall below 0, and a session that has ended stays ended. The session has ended
  whenever the lives are 0, and after a frame of a running session it has ended exactly
  if an alive enemy has reached the player's line. It ends in no other way: an event ends
  a running session only if it is a hit on the player that takes the last life, or a
  frame at whose end an alive enemy has reached the player's line, the lives being what
  they were.
\<close>

theorem session_score_lives_monotone:
  "score s \<le> score (run s evs) \<and>
   lives (run s evs) \<le> lives s \<and>
   (\<not> gameActive s \<longrightarrow> \<not> gameActive (run s evs)) \<and>
   (sessionOk s \<longrightarrow> sessionOk (run s evs)) \<and>
   score (step s (HitEnemy b e)) =
     (if enemy_active e \<and> bullet_active b then score s + 5 else score s) \<and>
   (gameActive s \<longrightarrow>
      gameActive (update p r1 r2 s) = (\<not> enemyReachedPlayer (update p r1 r2 s))) \<and>
   (gameActive s \<and> \<not> gameActive (step s ev) \<longrightarrow>
      (isHitPlayer ev \<and> lives s = 1 \<and> lives (step s ev) = 0) \<or>
      (isUpdate ev \<and> lives (step s ev) = lives s \<and> enemyReachedPlayer (step s ev)))"
  using run_session[of s evs] step_HitEnemy_score[of s b e] update_ends[of s p r1 r2]
    step_end[of s ev]
  by blast

text \<open>
  In \<open>lastLifeScene\<close> a player bullet has killed an enemy and two of the three enemy
  bullets have hit the player, 500 milliseconds apart; the third hit takes the last life.
\<close>

theorem session_score_lives_monotone_witness:
  "sessionOk killScene \<and> gameActive killScene \<and> score killScene = 0 \<and> lives killScene = 3 \<and>
   score lastLifeScene = 5 \<and> lives lastLifeScene = 1 \<and> gameActive lastLifeScene \<and>
   \<not> gameActive (step lastLifeScene (HitPlayer (exampleBullet 300 1420))) \<and>
   lives (step lastLifeScene (HitPlayer (exampleBullet 300 1420))) = 0 \<and>
   gameActive breachScene \<and>
   enemyReachedPlayer (update None (\<lambda>_. 0) (\<lambda>_. 0) breachScene) \<and>
   \<not> gameActive (update None (\<lambda>_. 0) (\<lambda>_. 0) breachScene)"
proof -
  have a: "sessionOk killScene" "gameActive killScene" "score killScene = 0" "lives killScene = 3"
    by (simp_all add: killScene_def overlapScene_def exampleGame_def sessionOk_def)
  have l: "score lastLifeScene = 5" "lives lastLifeScene = 1" "gameActive lastLifeScene"
    by (simp_all add: lastLifeScene_def run_def hitPlayer_def hitEnemy_def updateScore_def
          gameOver_def killScene_def overlapScene_def exampleGame_def exampleBullet_def
          exampleEnemy_def clockUpdate_def Let_def examplePlayer_def destroyed_def)
  have e: "\<not> gameActive (step lastLifeScene (HitPlayer (exampleBullet 300 1420)))"
    by (simp add: lastLifeScene_def run_def hitPlayer_def hitEnemy_def updateScore_def
          gameOver_def killScene_def overlapScene_def exampleGame_def exampleBullet_def
          exampleEnemy_def clockUpdate_def Let_def examplePlayer_def destroyed_def)
  have b: "gameActive breachScene" by (simp add: breachScene_def exampleGame_def)
  have r: "enemyReachedPlayer (update None (\<lambda>_. 0) (\<lambda>_. 0) breachScene)"
    by (simp add: enemyReachedPlayer_def breachScene_def example_defs method_defs Let_def
        volleyReset_def enemiesReadyToShoot_def readyToShoot_def enemiesByRow_def
        leftmostEnemy_def rightmostEnemy_def halfWidth_def edgeMargin_def moveEnemy_def
        shouldSpawn_def spawnEnemyRowCentered_def spawnStartX_def topRowLeftmost_def
        superAlienColumns_def numSuperAliens_def shuffle_def newEnemy_def
        setInitialVelocity_def ENEMY_COLS_def ENEMY_SPACING_def ENEMY_SHOOT_INTERVAL_def
        POWERUP_SPAWN_AFTER_ROWS_def DIFFICULTY_SUPER_ALIENS_INCREASE_AFTER_LINES_def
        ENEMY_DOWN_STEP_def)
  show ?thesis
    using a l e b r
      session_score_lives_monotone[of lastLifeScene "[]" "exampleBullet 100 60"
        "exampleEnemy 100 50 40 0" None "\<lambda>_. 0" "\<lambda>_. 0"
        "HitPlayer (exampleBullet 300 1420)"]
      session_score_lives_monotone[of breachScene "[]" "exampleBullet 100 60"
        "exampleEnemy 100 50 40 0" None "\<lambda>_. 0" "\<lambda>_. 0" "ClockUpdate 0"]
    by (simp del: step.simps)
qed

text \<open>
  C4 as stated fails in its last part: the session also ends while lives remain. In
  \<open>breachScene\<close> the game is running with three lives; one frame later it has ended and
  the lives are still three.
\<close>

theorem session_ends_with_lives_counterexample:
  "gameActive breachScene \<and> lives breachScene = 3 \<and>
   \<not> gameActive (update None (\<lambda>_. 0) (\<lambda>_. 0) breachScene) \<and>
   lives (update None (\<lambda>_. 0) (\<lambda>_. 0) breachScene) = 3"
  by (simp add: breachScene_def example_defs method_defs Let_def volleyReset_def
        enemiesReadyToShoot_def readyToShoot_def enemiesByRow_def leftmostEnemy_def
        rightmostEnemy_def halfWidth_def edgeMargin_def moveEnemy_def shouldSpawn_def
        spawnEnemyRowCentered_def spawnStartX_def topRowLeftmost_def superAlienColumns_def
        numSuperAliens_def shuffle_def newEnemy_def setInitialVelocity_def ENEMY_COLS_def
        ENEMY_SPACING_def ENEMY_SHOOT_INTERVAL_def POWERUP_SPAWN_AFTER_ROWS_def
        DIFFICULTY_SUPER_ALIENS_INCREASE_AFTER_LINES_def ENEMY_DOWN_STEP_def)

section \<open>Bullet caps\<close>

lemma handlePlayerShooting_count:
  "length (playerBullets (handlePlayerShooting s)) =
     (let n = length (playerBullets s)
      in if playerShotDue s
         then (if playerDoubleShot s
               then (if n < 6 then (if n + 1 < 6 then n + 2 else n + 1) else n)
               else (if n < 3 then n + 1 else n))
         else n)"
  by (auto simp add: handlePlayerShooting_def playerShotDue_def Let_def PLAYER_SHOOT_INTERVAL_def
        split: option.splits)

lemma handlePlayerShooting_bound:
  "length (playerBullets (handlePlayerShooting s)) \<le> max (length (playerBullets s)) (playerCap s)"
  unfolding handlePlayerShooting_count playerCap_def by (simp add: Let_def)

lemma shootFromEnemy_count:
  "length (enemyBullets (shootFromEnemy e s)) =
     (let n = length (enemyBullets s)
      in if enemy_active e \<and> isAlive e
         then (if isSuperAlien e
               then (if n < 28 then n + 2 else if n < 29 then n + 1 else n)
               else (if n < 29 then n + 1 else n))
         else n)"
  by (auto simp add: shootFromEnemy_def Let_def)

lemma shootFromEnemy_bound:
  "length (enemyBullets s) \<le> 29 \<Longrightarrow> length (enemyBullets (shootFromEnemy e s)) \<le> 29"
  unfolding shootFromEnemy_count by (simp add: Let_def)

lemma handleEnemyShooting_bound:
  "length (enemyBullets s) \<le> 29 \<Longrightarrow> length (enemyBullets (handleEnemyShooting rnd s)) \<le> 29"
  by (simp add: handleEnemyShooting_def Let_def volleyReset_frame shootFromEnemy_bound
        split: option.splits)

lemma cleanupBullets_bound:
  "length (playerBullets (cleanupBullets s)) \<le> length (playerBullets s)"
  "length (enemyBullets (cleanupBullets s)) \<le> length (enemyBullets s)"
  by (simp_all add: cleanupBullets_def)

lemma update_playerBullets_bound:
  "length (playerBullets (update p r1 r2 s)) \<le> max (length (playerBullets s)) (playerCap s)"
proof (cases "gameActive s")
  case False
  then show ?thesis by (simp add: update_def)
next
  case True
  let ?a = "handlePlayerShooting (handlePlayerMovement p s)"
  let ?m = "handleEnemyShooting r1 (handleEnemyMovement ?a)"
  have u: "playerBullets (update p r1 r2 s) = playerBullets (cleanupBullets ?m)"
    using True by (simp add: update_def update_parts_frame)
  have m: "playerBullets ?m = playerBullets ?a" by (simp add: update_parts_frame)
  have "length (playerBullets ?a)
          \<le> max (length (playerBullets (handlePlayerMovement p s))) (playerCap (handlePlayerMovement p s))"
    by (rule handlePlayerShooting_bound)
  then have "length (playerBullets ?a) \<le> max (length (playerBullets s)) (playerCap s)"
    by (simp add: handlePlayerMovement_frame playerCap_def)
  then show ?thesis
    unfolding u using cleanupBullets_bound(1)[of ?m] unfolding m by linarith
qed

lemma update_enemyBullets_bound:
  "length (enemyBullets s) \<le> 29 \<Longrightarrow> length (enemyBullets (update p r1 r2 s)) \<le> 29"
proof (cases "gameActive s")
  case False
  assume "length (enemyBullets s) \<le> 29"
  with False show ?thesis by (simp add: update_def)
next
  case True
  assume h: "length (enemyBullets s) \<le> 29"
  let ?a = "handleEnemyMovement (handlePlayerShooting (handlePlayerMovement p s))"
  have a: "enemyBullets ?a = enemyBullets s" by (simp add: update_parts_frame)
  have u: "enemyBullets (update p r1 r2 s) = enemyBullets (cleanupBullets (handleEnemyShooting r1 ?a))"
    using True by (simp add: update_def update_parts_frame)
  have "length (enemyBullets (handleEnemyShooting r1 ?a)) \<le> 29"
    using handleEnemyShooting_bound[of ?a r1] h a by simp
  then show ?thesis
    unfolding u using cleanupBullets_bound(2)[of "handleEnemyShooting r1 ?a"] by linarith
qed

lemma hitEnemy_bullets:
  "playerBullets (hitEnemy b e s) =
     (if obj_active b \<and> obj_active e then playerBullets (destroy e (destroy b s))
      else playerBullets s)"
  "enemyBullets (hitEnemy b e s) =
     (if obj_active b \<and> obj_active e then enemyBullets (destroy e (destroy b s))
      else enemyBullets s)"
  by (cases e; simp add: hitEnemy_def Let_def updateScore_def)+

lemma hitEnemy_bullets_bound:
  "length (playerBullets (hitEnemy b e s)) \<le> length (playerBullets s)"
  "length (enemyBullets (hitEnemy b e s)) \<le> length (enemyBullets s)"
proof -
  have p: "length (playerBullets (destroy e (destroy b s))) \<le> length (playerBullets s)"
    using destroy_bullets_bound(1)[of e "destroy b s"] destroy_bullets_bound(1)[of b s]
    by linarith
  have q: "length (enemyBullets (destroy e (destroy b s))) \<le> length (enemyBullets s)"
    using destroy_bullets_bound(2)[of e "destroy b s"] destroy_bullets_bound(2)[of b s]
    by linarith
  show "length (playerBullets (hitEnemy b e s)) \<le> length (playerBullets s)"
    unfolding hitEnemy_bullets using p by simp
  show "length (enemyBullets (hitEnemy b e s)) \<le> length (enemyBullets s)"
    unfolding hitEnemy_bullets using q by simp
qed

lemma hitPlayer_bullets_bound:
  "length (playerBullets (hitPlayer b pl s)) \<le> length (playerBullets s)"
  "length (enemyBullets (hitPlayer b pl s)) \<le> length (enemyBullets s)"
  using destroy_bullets_bound[of b "s\<lparr>playerHitProcessing := True\<rparr>"]
  by (simp_all add: hitPlayer_def Let_def gameOver_def split: option.splits)

lemma step_bullets:
  "length (playerBullets (step s ev)) \<le> max (length (playerBullets s)) (playerCap s) \<and>
   (length (enemyBullets s) \<le> 29 \<longrightarrow> length (enemyBullets (step s ev)) \<le> 29) \<and>
   (\<not> isCollect ev \<and> \<not> playerDoubleShot s \<longrightarrow> \<not> playerDoubleShot (step s ev))"
proof (cases ev)
  case (ClockUpdate t)
  then show ?thesis by (simp add: clockUpdate_frame)
next
  case (Update p r1 r2)
  then show ?thesis
    using update_playerBullets_bound[of p r1 r2 s] update_enemyBullets_bound[of s p r1 r2]
    by (simp add: update_doubleShot)
next
  case (PhysicsStep dt)
  then show ?thesis by (simp add: physicsStep_frame)
next
  case (HitEnemy b e)
  then show ?thesis
    using hitEnemy_bullets_bound[of "EnemyObj e" "BulletObj b" s]
    by (simp add: hitEnemy_frame)
next
  case (HitPlayer b)
  then show ?thesis
    by (simp add: step_hit_frame del: step.simps)
next
  case (CollectPowerUp pu)
  then show ?thesis by (simp add: collectPowerUp_frame)
qed

lemma run_bullets:
  "(length (playerBullets s) \<le> 6 \<longrightarrow> length (playerBullets (run s evs)) \<le> 6) \<and>
   (length (enemyBullets s) \<le> 29 \<longrightarrow> length (enemyBullets (run s evs)) \<le> 29) \<and>
   (length (playerBullets s) \<le> 3 \<and> \<not> playerDoubleShot s \<and> (\<forall>ev \<in> set evs. \<not> isCollect ev) \<longrightarrow>
      length (playerBullets (run s evs)) \<le> 3 \<and> \<not> playerDoubleShot (run s evs))"
proof (induction evs arbitrary: s)
  case Nil
  then show ?case by (simp add: run_def)
next
  case (Cons ev evs)
  have r: "run s (ev # evs) = run (step s ev) evs" by (simp add: run_def)
  have c: "playerCap s \<le> 6" "\<not> playerDoubleShot s \<Longrightarrow> playerCap s = 3"
    by (simp_all add: playerCap_def)
  show ?case unfolding r
    using Cons.IH[of "step s ev"] step_bullets[of s ev] c by auto
qed


text \<open>
  C2, as amended. No event raises the number of player bullets above the larger of its
  previous value and the cap in force (3, or 6 while double-shot is active): a due shot
  adds one bullet below the cap of 3, and under double-shot one bullet below 6 and the
  second of the pair only if a slot remains after the first. Hence the number never
  exceeds 6, and never exceeds 3 as long as no power-up has been collected. The number of
  enemy bullets never exceeds 29: a regular enemy adds a bullet below 29, a super enemy
  adds its first bullet only below 28 and its second below 29.
\<close>

theorem bullet_caps:
  "length (playerBullets (step s ev)) \<le> max (length (playerBullets s)) (playerCap s) \<and>
   (length (playerBullets s) \<le> 6 \<longrightarrow> length (playerBullets (run s evs)) \<le> 6) \<and>
   (length (playerBullets s) \<le> 3 \<and> \<not> playerDoubleShot s \<and> (\<forall>ev \<in> set evs. \<not> isCollect ev) \<longrightarrow>
      length (playerBullets (run s evs)) \<le> 3) \<and>
   (length (enemyBullets s) \<le> 29 \<longrightarrow> length (enemyBullets (run s evs)) \<le> 29) \<and>
   length (playerBullets (handlePlayerShooting s)) =
     (let n = length (playerBullets s)
      in if playerShotDue s
         then (if playerDoubleShot s
               then (if n < 6 then (if n + 1 < 6 then n + 2 else n + 1) else n)
               else (if n < 3 then n + 1 else n))
         else n) \<and>
   length (enemyBullets (shootFromEnemy e s)) =
     (let n = length (enemyBullets s)
      in if enemy_active e \<and> isAlive e
         then (if isSuperAlien e
               then (if n < 28 then n + 2 else if n < 29 then n + 1 else n)
               else (if n < 29 then n + 1 else n))
         else n)"
  using step_bullets[of s ev] run_bullets[of s evs] handlePlayerShooting_count[of s]
    shootFromEnemy_count[of e s]
  by simp

lemmas trace_defs =
  physicsStep_def moveBullet_def moveBody_def expiryTrace_def

theorem bullet_caps_witness:
  "length (playerBullets exampleGame) = 0 \<and>
   length (playerBullets (run exampleGame expiryTrace)) \<le> 6 \<and>
   length (enemyBullets crowdedScene) = 28 \<and>
   length (enemyBullets (run crowdedScene expiryTrace)) \<le> 29 \<and>
   length (enemyBullets
     (shootFromEnemy ((exampleEnemy 300 100 40 0)\<lparr>isSuperAlien := True\<rparr>) crowdedScene)) = 29 \<and>
   length (enemyBullets
     (shootFromEnemy ((exampleEnemy 300 100 40 0)\<lparr>isSuperAlien := True\<rparr>)
        (crowdedScene\<lparr>enemyBullets := replicate 27 (exampleBullet 0 0)\<rparr>))) = 29"
proof -
  have a: "length (playerBullets exampleGame) = 0" "length (enemyBullets crowdedScene) = 28"
    by (simp_all add: crowdedScene_def exampleGame_def)
  have b: "length (enemyBullets (crowdedScene\<lparr>enemyBullets := replicate 27 (exampleBullet 0 0)\<rparr>)) = 27"
    by simp
  have e: "enemy_active ((exampleEnemy 300 100 40 0)\<lparr>isSuperAlien := True\<rparr>)"
    "isAlive ((exampleEnemy 300 100 40 0)\<lparr>isSuperAlien := True\<rparr>)"
    "isSuperAlien ((exampleEnemy 300 100 40 0)\<lparr>isSuperAlien := True\<rparr>)"
    by (simp_all add: exampleEnemy_def)
  show ?thesis
    using bullet_caps[of exampleGame "ClockUpdate 0" expiryTrace]
      bullet_caps[of crowdedScene "ClockUpdate 0" expiryTrace
                     "(exampleEnemy 300 100 40 0)\<lparr>isSuperAlien := True\<rparr>"]
      bullet_caps[of "crowdedScene\<lparr>enemyBullets := replicate 27 (exampleBullet 0 0)\<rparr>"
                     "ClockUpdate 0" "[]"
                     "(exampleEnemy 300 100 40 0)\<lparr>isSuperAlien := True\<rparr>"]
    unfolding a b Let_def using e by simp
qed

text \<open>
  C2 as stated fails for the player after the buff expires: the bullets fired under
  double-shot are still in flight. After \<open>expiryTrace\<close> double-shot is inactive and six
  player bullets are on the screen, at heights between 275 and 1025.
\<close>

theorem player_bullets_after_expiry_counterexample:
  "length (playerBullets exampleGame) = 0 \<and> \<not> playerDoubleShot exampleGame \<and>
   \<not> playerDoubleShot (run exampleGame expiryTrace) \<and>
   length (playerBullets (run exampleGame expiryTrace)) = 6 \<and>
   map bullet_y (playerBullets (run exampleGame expiryTrace)) = [275, 275, 650, 650, 1025, 1025]"
  by (simp add: example_defs method_defs trace_defs Let_def)

section \<open>Shuffling and random choice\<close>

lemma random_index_lt:
  assumes "0 \<le> r" "r < 1" "0 < n"
  shows "nat \<lfloor>r * real n\<rfloor> < n"
proof -
  have "r * real n < real n" using assms by simp
  then have "\<lfloor>r * real n\<rfloor> < int n" by (simp add: floor_less_iff)
  moreover have "0 \<le> \<lfloor>r * real n\<rfloor>" using assms by simp
  ultimately show ?thesis by linarith
qed

lemma shuffleFrom_mset:
  "randomOk rnd \<Longrightarrow> i < length xs \<Longrightarrow> mset (shuffleFrom rnd k i xs) = mset xs"
proof (induction i arbitrary: k xs)
  case 0
  then show ?case by simp
next
  case (Suc i)
  let ?j = "nat \<lfloor>rnd k * real (Suc i + 1)\<rfloor>"
  let ?ys = "xs[Suc i := xs ! ?j, ?j := xs ! Suc i]"
  have j: "?j < Suc i + 1"
    using random_index_lt[of "rnd k" "Suc i + 1"] Suc.prems(1) by (simp add: randomOk_def)
  then have jl: "?j < length xs" using Suc.prems(2) by linarith
  have sw: "mset ?ys = mset xs" using mset_swap[OF jl Suc.prems(2)] .
  have "i < length ?ys" using Suc.prems(2) by simp
  from Suc.IH[OF Suc.prems(1) this, of "Suc k"] sw show ?case by (simp add: Let_def)
qed

lemma shuffle_mset: "randomOk rnd \<Longrightarrow> mset (shuffle rnd xs) = mset xs"
proof (cases xs)
  case Nil
  then show ?thesis by (simp add: shuffle_def)
next
  case (Cons a as)
  assume "randomOk rnd"
  then show ?thesis unfolding shuffle_def using shuffleFrom_mset[of rnd "length xs - 1" xs 0] Cons
    by simp
qed

lemma shuffle_set: "randomOk rnd \<Longrightarrow> set (shuffle rnd xs) = set xs"
  using shuffle_mset[of rnd xs] by (metis set_mset_mset)

lemma shuffle_length: "randomOk rnd \<Longrightarrow> length (shuffle rnd xs) = length xs"
  using shuffle_mset[of rnd xs] by (metis size_mset)

lemma shuffle_distinct: "randomOk rnd \<Longrightarrow> distinct (shuffle rnd xs) = distinct xs"
  using shuffle_mset[of rnd xs] by (metis distinct_count_atmost_1 set_mset_mset)

lemma shuffleFrom_cong:
  "(\<forall>m<i. rnd (k + m) = rnd' (k + m)) \<Longrightarrow> shuffleFrom rnd k i xs = shuffleFrom rnd' k i xs"
proof (induction i arbitrary: k xs)
  case 0
  then show ?case by simp
next
  case (Suc i)
  have k: "rnd k = rnd' k" using Suc.prems by (metis add.right_neutral zero_less_Suc)
  have "\<forall>m<i. rnd (Suc k + m) = rnd' (Suc k + m)"
  proof (intro allI impI)
    fix m assume "m < i"
    then have "Suc m < Suc i" by simp
    then have "rnd (k + Suc m) = rnd' (k + Suc m)" using Suc.prems by blast
    then show "rnd (Suc k + m) = rnd' (Suc k + m)" by simp
  qed
  from Suc.IH[OF this] k show ?case by (simp add: Let_def)
qed

lemma GetRandom_Some:
  assumes "0 \<le> r" "r < 1" "xs \<noteq> []"
  shows "\<exists>i < length xs. GetRandom r xs = Some (xs ! i)"
proof -
  have "nat \<lfloor>r * real (length xs)\<rfloor> < length xs"
    using random_index_lt[OF assms(1,2), of "length xs"] assms(3) by simp
  then show ?thesis by (auto simp: GetRandom_def Let_def)
qed

lemma numEnemiesThatCanShoot_eq: "numEnemiesThatCanShoot n = max 1 (n div 10)"
proof -
  have "\<lfloor>real n * (1 / 10)\<rfloor> = int (n div 10)"
    by (metis floor_divide_of_nat_eq mult.right_neutral of_nat_numeral times_divide_eq_right)
  then show ?thesis
    by (simp add: numEnemiesThatCanShoot_def DIFFICULTY_ENEMY_SHOOT_PERCENTAGE_def)
qed

lemma shootingEnemy_Some:
  assumes "randomOk rnd" "ready \<noteq> []"
  shows "\<exists>e. shootingEnemy rnd ready = Some e \<and>
             e \<in> set (take (max 1 (length ready div 10)) (shuffle rnd ready)) \<and>
             e \<in> set ready"
proof -
  let ?k = "numEnemiesThatCanShoot (length ready)"
  let ?c = "take ?k (shuffle rnd ready)"
  have k: "?k = max 1 (length ready div 10)" by (rule numEnemiesThatCanShoot_eq)
  have "length ?c = min ?k (length ready)" using assms(1) by (simp add: shuffle_length)
  then have ne: "?c \<noteq> []" using assms(2) k by (cases ready) auto
  have r: "0 \<le> rnd (length ready - 1)" "rnd (length ready - 1) < 1"
    using assms(1) by (simp_all add: randomOk_def)
  from GetRandom_Some[OF r ne] obtain i where i: "i < length ?c"
    "GetRandom (rnd (length ready - 1)) ?c = Some (?c ! i)" by blast
  have m: "?c ! i \<in> set ?c" using i(1) by (rule nth_mem)
  then have "?c ! i \<in> set (shuffle rnd ready)" by (rule in_set_takeD)
  then have "?c ! i \<in> set ready" using shuffle_set[OF assms(1), of ready] by simp
  with i(2) m k show ?thesis by (simp add: shootingEnemy_def Let_def)
qed

lemma shootFromEnemy_rows:
  "enemy_active e \<Longrightarrow> isAlive e \<Longrightarrow> rowsCanShoot (shootFromEnemy e s) = rowsCanShoot s - {row e}"
  by (simp add: shootFromEnemy_def Let_def)

lemma shootFromEnemy_other:
  "rowShooting (shootFromEnemy e s) = rowShooting s"
  "rowLastShotTime (shootFromEnemy e s) = rowLastShotTime s"
  "enemies (shootFromEnemy e s) = enemies s"
  by (simp_all add: shootFromEnemy_def Let_def)

lemma readyToShoot_iff:
  "readyToShoot s e \<longleftrightarrow>
     isAlive e \<and> enemy_active e \<and> row e \<in> rowsCanShoot s \<and>
     time_now s - (case rowLastShotTime s (row e) of None \<Rightarrow> 0 | Some t \<Rightarrow> t)
       \<ge> minTimeBetweenRowShots s"
  by (auto simp add: readyToShoot_def Let_def)

section \<open>Enemy shooting\<close>

lemma rows_frame:
  "rowsCanShoot (handlePlayerMovement p s) = rowsCanShoot s"
  "nextRowIndex (handlePlayerMovement p s) = nextRowIndex s"
  "enemyShootTimer (handlePlayerMovement p s) = enemyShootTimer s"
  "enemies (handlePlayerMovement p s) = enemies s"
  "rowsCanShoot (handlePlayerShooting s) = rowsCanShoot s"
  "nextRowIndex (handlePlayerShooting s) = nextRowIndex s"
  "enemyShootTimer (handlePlayerShooting s) = enemyShootTimer s"
  "enemies (handlePlayerShooting s) = enemies s"
  "rowsCanShoot (handleEnemyMovement s) = rowsCanShoot s"
  "nextRowIndex (handleEnemyMovement s) = nextRowIndex s"
  "enemyShootTimer (handleEnemyMovement s) = enemyShootTimer s"
  "rowsCanShoot (cleanupBullets s) = rowsCanShoot s"
  "nextRowIndex (cleanupBullets s) = nextRowIndex s"
  "enemyShootTimer (cleanupBullets s) = enemyShootTimer s"
  "enemies (cleanupBullets s) = enemies s"
  "rowsCanShoot (checkPowerUpExpiration s) = rowsCanShoot s"
  "nextRowIndex (checkPowerUpExpiration s) = nextRowIndex s"
  "enemyShootTimer (checkPowerUpExpiration s) = enemyShootTimer s"
  "enemies (checkPowerUpExpiration s) = enemies s"
  "rowsCanShoot (checkGameOver s) = rowsCanShoot s"
  "nextRowIndex (checkGameOver s) = nextRowIndex s"
  "enemyShootTimer (checkGameOver s) = enemyShootTimer s"
  "enemies (checkGameOver s) = enemies s"
  "nextRowIndex (volleyReset s) = nextRowIndex s"
  "nextRowIndex (shootFromEnemy e s) = nextRowIndex s"
  "enemyShootTimer (shootFromEnemy e s) = enemyShootTimer s"
  "nextRowIndex (physicsStep dt s) = nextRowIndex s"
  "rowsCanShoot (physicsStep dt s) = rowsCanShoot s"
  "enemyShootTimer (physicsStep dt s) = enemyShootTimer s"
  "nextRowIndex (hitEnemy ob1 ob2 s) = nextRowIndex s"
  "enemyShootTimer (hitEnemy ob1 ob2 s) = enemyShootTimer s"
  "nextRowIndex (hitPlayer ob1 ob2 s) = nextRowIndex s"
  "enemyShootTimer (hitPlayer ob1 ob2 s) = enemyShootTimer s"
  "nextRowIndex (collectPowerUp a s) = nextRowIndex s"
  "rowsCanShoot (collectPowerUp a s) = rowsCanShoot s"
  "enemyShootTimer (collectPowerUp a s) = enemyShootTimer s"
  "enemies (collectPowerUp a s) = enemies s"
  by (simp_all add: handlePlayerMovement_def handlePlayerShooting_def handleEnemyMovement_def
        cleanupBullets_def checkPowerUpExpiration_def checkGameOver_def gameOver_def
        volleyReset_def shootFromEnemy_def physicsStep_def hitEnemy_def updateScore_def
        hitPlayer_def collectPowerUp_def Let_def destroy_frame
        split: option.splits gameObject.splits)

lemma runCallback_rows:
  "rowsCanShoot (runCallback c s) = rowsCanShoot s"
  "nextRowIndex (runCallback c s) = nextRowIndex s"
  "enemyShootTimer (runCallback c s) = enemyShootTimer s"
  "enemies (runCallback c s) = enemies s"
  by (cases c; simp)+

lemma foldl_runCallback_rows:
  "rowsCanShoot (foldl (\<lambda>st dc. runCallback (snd dc) st) s cs) = rowsCanShoot s \<and>
   nextRowIndex (foldl (\<lambda>st dc. runCallback (snd dc) st) s cs) = nextRowIndex s \<and>
   enemyShootTimer (foldl (\<lambda>st dc. runCallback (snd dc) st) s cs) = enemyShootTimer s \<and>
   enemies (foldl (\<lambda>st dc. runCallback (snd dc) st) s cs) = enemies s"
  by (induction cs arbitrary: s) (simp_all add: runCallback_rows)

lemma clockUpdate_rows:
  "rowsCanShoot (clockUpdate t s) = rowsCanShoot s"
  "nextRowIndex (clockUpdate t s) = nextRowIndex s"
  "enemyShootTimer (clockUpdate t s) = enemyShootTimer s"
  "enemies (clockUpdate t s) = enemies s"
  by (simp_all add: clockUpdate_def Let_def foldl_runCallback_rows)

lemma volleyReset_rows:
  "enemyShootTimer (volleyReset s) = enemyShootTimer s \<Longrightarrow>
   rowsCanShoot (volleyReset s) = rowsCanShoot s"
  by (auto simp add: volleyReset_def Let_def ENEMY_SHOOT_INTERVAL_def split: if_splits)

lemma shootFromEnemy_rows_subset: "rowsCanShoot (shootFromEnemy e s) \<subseteq> rowsCanShoot s"
  by (auto simp add: shootFromEnemy_def Let_def)

lemma handleEnemyShooting_rows:
  "nextRowIndex (handleEnemyShooting rnd s) = nextRowIndex s"
  "enemies (handleEnemyShooting rnd s) = enemies s"
  "enemyShootTimer (handleEnemyShooting rnd s) = enemyShootTimer s \<Longrightarrow>
   rowsCanShoot (handleEnemyShooting rnd s) \<subseteq> rowsCanShoot s"
proof -
  show "nextRowIndex (handleEnemyShooting rnd s) = nextRowIndex s"
    by (simp add: handleEnemyShooting_def Let_def rows_frame split: option.splits)
  show "enemies (handleEnemyShooting rnd s) = enemies s"
    by (simp add: handleEnemyShooting_def Let_def volleyReset_frame shootFromEnemy_other
          split: option.splits)
  assume t: "enemyShootTimer (handleEnemyShooting rnd s) = enemyShootTimer s"
  have "enemyShootTimer (handleEnemyShooting rnd s) = enemyShootTimer (volleyReset s) \<or>
        handleEnemyShooting rnd s = s"
    by (simp add: handleEnemyShooting_def Let_def rows_frame split: option.splits)
  moreover have "rowsCanShoot (handleEnemyShooting rnd s) \<subseteq> rowsCanShoot (volleyReset s) \<or>
        handleEnemyShooting rnd s = s"
  proof (cases "shootingEnemy rnd (enemiesReadyToShoot (volleyReset s))")
    case None
    then show ?thesis by (simp add: handleEnemyShooting_def Let_def)
  next
    case (Some e)
    let ?s2 = "(volleyReset s)\<lparr>rowShooting := Some (row e),
                 rowLastShotTime := (rowLastShotTime (volleyReset s))(row e \<mapsto> time_now s)\<rparr>"
    have "rowsCanShoot (shootFromEnemy e ?s2) \<subseteq> rowsCanShoot ?s2"
      by (rule shootFromEnemy_rows_subset)
    then have "rowsCanShoot (shootFromEnemy e ?s2) \<subseteq> rowsCanShoot (volleyReset s)" by simp
    then show ?thesis using Some by (simp add: handleEnemyShooting_def Let_def)
  qed
  ultimately show "rowsCanShoot (handleEnemyShooting rnd s) \<subseteq> rowsCanShoot s"
    using t volleyReset_rows[of s] by auto
qed

lemma checkSpawnNewRow_rows:
  "enemyShootTimer (checkSpawnNewRow rnd s) = enemyShootTimer s"
  "rowsCanShoot (checkSpawnNewRow rnd s) \<subseteq> insert (nextRowIndex s) (rowsCanShoot s)"
  "nextRowIndex s \<le> nextRowIndex (checkSpawnNewRow rnd s)"
  by (auto simp add: checkSpawnNewRow_def Let_def spawnPowerUp_def spawnEnemyRowCentered_def
        split: option.splits)

lemma update_rows:
  assumes "enemyShootTimer (update p r1 r2 s) = enemyShootTimer s"
  shows "rowsCanShoot (update p r1 r2 s) \<subseteq> insert (nextRowIndex s) (rowsCanShoot s)"
    and "nextRowIndex s \<le> nextRowIndex (update p r1 r2 s)"
proof -
  let ?a = "handleEnemyMovement (handlePlayerShooting (handlePlayerMovement p s))"
  let ?b = "handleEnemyShooting r1 ?a"
  let ?c = "checkSpawnNewRow r2 (cleanupBullets ?b)"
  have a: "rowsCanShoot ?a = rowsCanShoot s" "nextRowIndex ?a = nextRowIndex s"
    "enemyShootTimer ?a = enemyShootTimer s"
    by (simp_all add: rows_frame)
  show "rowsCanShoot (update p r1 r2 s) \<subseteq> insert (nextRowIndex s) (rowsCanShoot s)"
  proof (cases "gameActive s")
    case False
    then show ?thesis by (auto simp add: update_def)
  next
    case True
    have u: "rowsCanShoot (update p r1 r2 s) = rowsCanShoot ?c"
      "enemyShootTimer (update p r1 r2 s) = enemyShootTimer ?b"
      using True by (simp_all add: update_def rows_frame checkSpawnNewRow_rows)
    have "enemyShootTimer ?b = enemyShootTimer ?a" using assms u(2) a(3) by simp
    then have b: "rowsCanShoot ?b \<subseteq> rowsCanShoot s"
      using handleEnemyShooting_rows(3)[of r1 ?a] a(1) by simp
    have "rowsCanShoot ?c \<subseteq> insert (nextRowIndex (cleanupBullets ?b)) (rowsCanShoot (cleanupBullets ?b))"
      by (rule checkSpawnNewRow_rows)
    then show ?thesis unfolding u(1) using b a(2)
      by (auto simp add: rows_frame handleEnemyShooting_rows)
  qed
  show "nextRowIndex s \<le> nextRowIndex (update p r1 r2 s)"
  proof (cases "gameActive s")
    case False
    then show ?thesis by (simp add: update_def)
  next
    case True
    have "nextRowIndex (update p r1 r2 s) = nextRowIndex ?c"
      using True by (simp add: update_def rows_frame)
    moreover have "nextRowIndex (cleanupBullets ?b) \<le> nextRowIndex ?c"
      by (rule checkSpawnNewRow_rows)
    ultimately show ?thesis using a(2) by (simp add: rows_frame handleEnemyShooting_rows)
  qed
qed

lemma hitEnemy_rows_subset: "rowsCanShoot (hitEnemy b e s) \<subseteq> rowsCanShoot s"
  by (auto simp add: hitEnemy_def Let_def updateScore_def destroy_frame
        split: gameObject.splits option.splits)

lemma step_rows:
  assumes "enemyShootTimer (step s ev) = enemyShootTimer s"
    and "r < nextRowIndex s" "r \<notin> rowsCanShoot s"
  shows "r < nextRowIndex (step s ev) \<and> r \<notin> rowsCanShoot (step s ev)"
proof (cases ev)
  case (ClockUpdate t)
  with assms show ?thesis by (simp add: clockUpdate_rows)
next
  case (Update p r1 r2)
  with assms update_rows[of p r1 r2 s] show ?thesis by auto
next
  case (PhysicsStep dt)
  with assms show ?thesis by (simp add: rows_frame)
next
  case (HitEnemy b e)
  with assms hitEnemy_rows_subset[of "EnemyObj e" "BulletObj b" s] show ?thesis
    by (auto simp add: rows_frame)
next
  case (HitPlayer b)
  with assms show ?thesis by (simp add: step_hit_frame del: step.simps)
next
  case (CollectPowerUp pu)
  with assms show ?thesis by (simp add: rows_frame)
qed

lemma run_rows:
  assumes "noVolleyReset s evs" "r < nextRowIndex s" "r \<notin> rowsCanShoot s"
  shows "r \<notin> rowsCanShoot (run s evs)"
  using assms
proof (induction evs arbitrary: s)
  case Nil
  then show ?case by (simp add: run_def)
next
  case (Cons ev evs)
  have r: "run s (ev # evs) = run (step s ev) evs" by (simp add: run_def)
  have st: "r < nextRowIndex (step s ev) \<and> r \<notin> rowsCanShoot (step s ev)"
    using step_rows[of s ev r] Cons.prems by simp
  show ?case unfolding r using Cons.IH[of "step s ev"] st Cons.prems(1) by simp
qed

lemma enemiesReadyToShoot_mem:
  "e \<in> set (enemiesReadyToShoot s) \<longleftrightarrow> e \<in> set (enemies s) \<and> readyToShoot s e"
  by (simp add: enemiesReadyToShoot_def)

text \<open>
  A free lock and an eligible enemy at the start of \<open>handleEnemyShooting\<close> are still a
  free lock and an eligible enemy after the volley-timer part.
\<close>

lemma volleyReset_keeps_ready:
  assumes "rowShooting s = None" "e \<in> set (enemiesReadyToShoot s)"
  shows "rowShooting (volleyReset s) = None \<and> e \<in> set (enemiesReadyToShoot (volleyReset s))"
proof -
  have r: "rowShooting (volleyReset s) = None"
    using assms(1) by (simp add: volleyReset_def Let_def)
  have e: "e \<in> set (enemies s)" "isAlive e" "enemy_active e" "row e \<in> rowsCanShoot s"
    "time_now s - (case rowLastShotTime s (row e) of None \<Rightarrow> 0 | Some t \<Rightarrow> t)
       \<ge> minTimeBetweenRowShots s"
    using assms(2) by (simp_all add: enemiesReadyToShoot_mem readyToShoot_iff)
  have rows: "row e \<in> rowsCanShoot (volleyReset s)"
    using e(1,2,4) by (auto simp add: volleyReset_def Let_def)
  have l: "rowLastShotTime (volleyReset s) = rowLastShotTime s"
    by (simp add: volleyReset_def Let_def)
  have "readyToShoot (volleyReset s) e"
    using e(2,3,5) rows by (simp add: readyToShoot_iff volleyReset_frame l)
  with e(1) r show ?thesis by (simp add: enemiesReadyToShoot_mem volleyReset_frame)
qed

lemma shootFromEnemy_fired:
  "enemy_active e \<Longrightarrow> isAlive e \<Longrightarrow>
   enemyBullets (shootFromEnemy e s) = enemyBullets s @ bulletsFired e (length (enemyBullets s))"
  by (simp add: shootFromEnemy_def bulletsFired_def Let_def)

lemma bulletsFired_empty: "bulletsFired e n = [] \<longleftrightarrow> 29 \<le> n"
  by (auto simp add: bulletsFired_def)

lemma random_index_exact:
  assumes "i < n"
  shows "nat \<lfloor>(real i / real n) * real n\<rfloor> = i"
    and "0 \<le> real i / real n" and "real i / real n < 1"
  using assms by simp_all

lemma shuffle_cong:
  assumes "\<forall>m < length xs - 1. rnd m = rnd' m"
  shows "shuffle rnd xs = shuffle rnd' xs"
  unfolding shuffle_def using shuffleFrom_cong[of "length xs - 1" rnd 0 rnd' xs] assms by simp

lemma shootingEnemy_exact:
  assumes "randomOk rnd" "ready \<noteq> []"
    and "retained = take (max 1 (length ready div 10)) (shuffle rnd ready)"
  shows "length retained = max 1 (length ready div 10)"
    and "nat \<lfloor>rnd (length ready - 1) * real (length retained)\<rfloor> < length retained"
    and "shootingEnemy rnd ready =
           Some (retained ! nat \<lfloor>rnd (length ready - 1) * real (length retained)\<rfloor>)"
    and "set retained \<subseteq> set ready"
proof -
  have n: "0 < length ready" using assms(2) by simp
  have "max 1 (length ready div 10) \<le> length ready"
    using n by (cases ready) (simp_all add: div_le_dividend)
  then show l: "length retained = max 1 (length ready div 10)"
    unfolding assms(3) using assms(1) by (simp add: shuffle_length)
  then have p: "0 < length retained" by simp
  have r: "0 \<le> rnd (length ready - 1)" "rnd (length ready - 1) < 1"
    using assms(1) by (simp_all add: randomOk_def)
  show i: "nat \<lfloor>rnd (length ready - 1) * real (length retained)\<rfloor> < length retained"
    using random_index_lt[OF r p] .
  show "shootingEnemy rnd ready =
           Some (retained ! nat \<lfloor>rnd (length ready - 1) * real (length retained)\<rfloor>)"
    using i unfolding assms(3)
    by (simp add: shootingEnemy_def GetRandom_def Let_def numEnemiesThatCanShoot_eq)
  have "set retained \<subseteq> set (shuffle rnd ready)"
    unfolding assms(3) by (rule set_take_subset)
  then show "set retained \<subseteq> set ready"
    using shuffle_set[OF assms(1), of ready] by simp
qed

text \<open>
  Every retained enemy is the one chosen for some value of the random number drawn by
  \<open>GetRandom\<close>, the shuffle being the same.
\<close>

lemma shootingEnemy_reaches:
  assumes "randomOk rnd" "ready \<noteq> []"
    and "retained = take (max 1 (length ready div 10)) (shuffle rnd ready)"
    and "i < length retained"
  shows "\<exists>rnd'. randomOk rnd' \<and> shuffle rnd' ready = shuffle rnd ready \<and>
                shootingEnemy rnd' ready = Some (retained ! i)"
proof -
  let ?k = "length ready - 1"
  let ?L = "length retained"
  let ?rnd = "rnd(?k := real i / real ?L)"
  have ok: "randomOk ?rnd"
    using assms(1) random_index_exact(2,3)[OF assms(4)] by (auto simp add: randomOk_def)
  have sh: "shuffle ?rnd ready = shuffle rnd ready"
    by (rule shuffle_cong) simp
  have rt: "retained = take (max 1 (length ready div 10)) (shuffle ?rnd ready)"
    using assms(3) sh by simp
  have "shootingEnemy ?rnd ready = Some (retained ! nat \<lfloor>?rnd ?k * real ?L\<rfloor>)"
    using shootingEnemy_exact(3)[OF ok assms(2) rt] .
  moreover have "nat \<lfloor>?rnd ?k * real ?L\<rfloor> = i"
    using random_index_exact(1)[OF assms(4)] by simp
  ultimately have "shootingEnemy ?rnd ready = Some (retained ! i)" by simp
  with ok sh show ?thesis by blast
qed

text \<open>
  C5, as amended. Let the random numbers lie in \<open>[0, 1)\<close>, and let, after the volley-timer
  part of \<open>handleEnemyShooting\<close>, the shooting-row lock be free and at least one enemy be
  eligible (alive, not destroyed, its row in the eligible set, its row's last shot at
  least \<open>minTimeBetweenRowShots\<close> ago). Then exactly one enemy \<open>e\<close> is selected: the \<open>n\<close>
  eligible enemies are shuffled (a permutation), the first \<open>max 1 (n div 10)\<close> are
  retained, and \<open>e\<close> is the retained enemy at the index \<open>\<lfloor>r * k\<rfloor>\<close>, for \<open>k\<close> retained
  enemies and the next random number \<open>r\<close>; every retained enemy is selected for some
  \<open>r\<close>. The selected enemy is itself eligible. The method takes the lock for its row,
  records the shot time of the row, and removes the row from the eligible rows. Only
  \<open>e\<close> fires: one bullet, or the two of a super enemy, as far as the cap allows (the
  first of a pair below 28 bullets in flight, any other below 29), so that no enemy
  fires exactly if 29 or more bullets are in flight. In a scene in which every enemy
  belongs to a spawned row, the row stays out of the eligible rows during any run of
  events in which the volley timer is not written.
\<close>

theorem handleEnemyShooting_fires_one:
  assumes "randomOk rnd" and "enemies s \<noteq> []"
    and "rowShooting (volleyReset s) = None"
    and "enemiesReadyToShoot (volleyReset s) \<noteq> []"
    and "rowsBelowNext s"
    and "noVolleyReset (handleEnemyShooting rnd s) evs"
    and "ready = enemiesReadyToShoot (volleyReset s)"
    and "retained = take (max 1 (length ready div 10)) (shuffle rnd ready)"
    and "e = retained ! nat \<lfloor>rnd (length ready - 1) * real (length retained)\<rfloor>"
  shows "shootingEnemy rnd ready = Some e \<and>
         mset (shuffle rnd ready) = mset ready \<and>
         length retained = max 1 (length ready div 10) \<and>
         nat \<lfloor>rnd (length ready - 1) * real (length retained)\<rfloor> < length retained \<and>
         (\<forall>i < length retained.
            \<exists>rnd'. randomOk rnd' \<and> shuffle rnd' ready = shuffle rnd ready \<and>
                   shootingEnemy rnd' ready = Some (retained ! i)) \<and>
         e \<in> set (enemies s) \<and> isAlive e \<and> enemy_active e \<and>
         row e \<in> rowsCanShoot (volleyReset s) \<and>
         time_now s - (case rowLastShotTime s (row e) of None \<Rightarrow> 0 | Some t \<Rightarrow> t)
           \<ge> minTimeBetweenRowShots s \<and>
         rowShooting (handleEnemyShooting rnd s) = Some (row e) \<and>
         rowLastShotTime (handleEnemyShooting rnd s) (row e) = Some (time_now s) \<and>
         enemyBullets (handleEnemyShooting rnd s) =
           enemyBullets s @ bulletsFired e (length (enemyBullets s)) \<and>
         (bulletsFired e (length (enemyBullets s)) = [] \<longleftrightarrow> 29 \<le> length (enemyBullets s)) \<and>
         rowsCanShoot (handleEnemyShooting rnd s) = rowsCanShoot (volleyReset s) - {row e} \<and>
         row e \<notin> rowsCanShoot (run (handleEnemyShooting rnd s) evs)"
proof -
  let ?s1 = "volleyReset s"
  have ne: "ready \<noteq> []" using assms(4,7) by simp
  note ex = shootingEnemy_exact[OF assms(1) ne assms(8)]
  have se: "shootingEnemy rnd ready = Some e" using ex(3) assms(9) by simp
  have em: "e \<in> set ready" using ex(2,4) assms(9) nth_mem by blast
  have reach: "\<forall>i < length retained.
            \<exists>rnd'. randomOk rnd' \<and> shuffle rnd' ready = shuffle rnd ready \<and>
                   shootingEnemy rnd' ready = Some (retained ! i)"
    using shootingEnemy_reaches[OF assms(1) ne assms(8)] by blast
  let ?s2 = "?s1\<lparr>rowShooting := Some (row e),
                 rowLastShotTime := (rowLastShotTime ?s1)(row e \<mapsto> time_now s)\<rparr>"
  let ?s3 = "shootFromEnemy e ?s2"
  have res: "handleEnemyShooting rnd s =
               ?s3\<lparr>delayedCalls := delayedCalls ?s3 @
                      [(time_now s + minTimeBetweenRowShots ?s3, ResetRowShooting)]\<rparr>"
    using assms(2,3,4) se unfolding assms(7) by (simp add: handleEnemyShooting_def Let_def)
  have rd: "e \<in> set (enemies s)" "readyToShoot ?s1 e"
    using em unfolding assms(7) by (simp_all add: enemiesReadyToShoot_mem volleyReset_frame)
  then have al: "isAlive e" "enemy_active e" "row e \<in> rowsCanShoot ?s1"
    and tm: "time_now ?s1 - (case rowLastShotTime ?s1 (row e) of None \<Rightarrow> 0 | Some t \<Rightarrow> t)
               \<ge> minTimeBetweenRowShots ?s1"
    by (simp_all add: readyToShoot_iff)
  have vr: "rowLastShotTime ?s1 = rowLastShotTime s"
    by (simp add: volleyReset_def Let_def)
  have tm': "time_now s - (case rowLastShotTime s (row e) of None \<Rightarrow> 0 | Some t \<Rightarrow> t)
               \<ge> minTimeBetweenRowShots s"
    using tm by (simp add: volleyReset_frame vr)
  have rs: "rowShooting (handleEnemyShooting rnd s) = Some (row e)"
    unfolding res by (simp add: shootFromEnemy_other)
  have rl: "rowLastShotTime (handleEnemyShooting rnd s) (row e) = Some (time_now s)"
    unfolding res by (simp add: shootFromEnemy_other)
  have bl: "enemyBullets (handleEnemyShooting rnd s) =
              enemyBullets s @ bulletsFired e (length (enemyBullets s))"
    unfolding res using shootFromEnemy_fired[OF al(2) al(1), of ?s2]
    by (simp add: volleyReset_frame)
  have rc: "rowsCanShoot (handleEnemyShooting rnd s) = rowsCanShoot ?s1 - {row e}"
    unfolding res using shootFromEnemy_rows[OF al(2) al(1), of ?s2] by simp
  then have out: "row e \<notin> rowsCanShoot (handleEnemyShooting rnd s)" by simp
  have "row e < nextRowIndex s" using assms(5) rd(1) by (simp add: rowsBelowNext_def)
  then have "row e < nextRowIndex (handleEnemyShooting rnd s)"
    by (simp add: handleEnemyShooting_rows)
  from run_rows[OF assms(6) this out]
  have later: "row e \<notin> rowsCanShoot (run (handleEnemyShooting rnd s) evs)" .
  have ms: "mset (shuffle rnd ready) = mset ready" using shuffle_mset[OF assms(1)] .
  have be: "bulletsFired e (length (enemyBullets s)) = [] \<longleftrightarrow> 29 \<le> length (enemyBullets s)"
    by (rule bulletsFired_empty)
  note c1 = ex(1) and c2 = ex(2) and c3 = rd(1) and c4 = al(1) and c5 = al(2) and c6 = al(3)
  show ?thesis by (intro conjI; fact)
qed


lemma rnd0: "randomOk (\<lambda>_. 0)" by (simp add: randomOk_def)

lemmas shooting_defs =
  volleyReset_def enemiesReadyToShoot_def readyToShoot_def shootingEnemy_def shuffle_def
  GetRandom_def numEnemiesThatCanShoot_def shootFromEnemy_def enemyBullet_def
  DIFFICULTY_ENEMY_SHOOT_PERCENTAGE_def ENEMY_SHOOT_INTERVAL_def ENEMY_BULLET_SPEED_def

lemmas movement_defs =
  enemiesByRow_def leftmostEnemy_def rightmostEnemy_def halfWidth_def edgeMargin_def
  moveEnemy_def ENEMY_DOWN_STEP_def DIFFICULTY_ENEMY_SPEED_INCREASE_def

lemmas spawn_defs =
  shouldSpawn_def spawnEnemyRowCentered_def spawnStartX_def topRowLeftmost_def
  superAlienColumns_def numSuperAliens_def newEnemy_def setInitialVelocity_def spawnPowerUp_def
  ENEMY_COLS_def ENEMY_SPACING_def POWERUP_SPAWN_AFTER_ROWS_def
  DIFFICULTY_SUPER_ALIENS_INCREASE_AFTER_LINES_def

theorem handleEnemyShooting_fires_one_witness:
  "length (enemiesReadyToShoot (volleyReset volleyScene)) = 3 \<and>
   shootingEnemy (\<lambda>_. 0) (enemiesReadyToShoot (volleyReset volleyScene))
     = Some (exampleEnemy 100 100 40 1) \<and>
   rowShooting (handleEnemyShooting (\<lambda>_. 0) volleyScene) = Some 1 \<and>
   rowsCanShoot (handleEnemyShooting (\<lambda>_. 0) volleyScene) = {0, 2} \<and>
   enemyBullets volleyScene = [] \<and>
   enemyBullets (handleEnemyShooting (\<lambda>_. 0) volleyScene)
     = [enemyBullet (exampleEnemy 100 100 40 1) 0] \<and>
   1 \<notin> rowsCanShoot
          (run (handleEnemyShooting (\<lambda>_. 0) volleyScene)
             [ClockUpdate 6100, Update None (\<lambda>_. 0) (\<lambda>_. 0)])"
proof -
  let ?evs = "[ClockUpdate 6100, Update None (\<lambda>_. 0) (\<lambda>_. 0)]"
  let ?ready = "enemiesReadyToShoot (volleyReset volleyScene)"
  let ?retained = "take (max 1 (length ?ready div 10)) (shuffle (\<lambda>_. 0) ?ready)"
  let ?e = "?retained ! nat \<lfloor>(0::real) * real (length ?retained)\<rfloor>"
  have h: "enemies volleyScene \<noteq> []" "rowShooting (volleyReset volleyScene) = None"
    "enemiesReadyToShoot (volleyReset volleyScene) \<noteq> []" "rowsBelowNext volleyScene"
    by (simp_all add: volleyScene_def example_defs shooting_defs rowsBelowNext_def Let_def)
  have n: "length ?ready = 3"
    by (simp add: volleyScene_def example_defs shooting_defs Let_def)
  have e: "?e = exampleEnemy 100 100 40 1"
    by (simp add: volleyScene_def example_defs shooting_defs Let_def)
  have r: "rowsCanShoot (volleyReset volleyScene) = {0, 1, 2}" "enemyBullets volleyScene = []"
    by (auto simp add: volleyScene_def example_defs shooting_defs Let_def)
  have nv: "noVolleyReset (handleEnemyShooting (\<lambda>_. 0) volleyScene) ?evs"
    by (simp add: volleyScene_def example_defs shooting_defs method_defs movement_defs
          spawn_defs Let_def)
  have f: "bulletsFired (exampleEnemy 100 100 40 1) 0 = [enemyBullet (exampleEnemy 100 100 40 1) 0]"
    by (simp add: bulletsFired_def exampleEnemy_def)
  have w: "row (exampleEnemy 100 100 40 1) = 1" by (simp add: exampleEnemy_def)
  have d: "{0, 1, 2} - {1::nat} = {0, 2}" by auto
  note th = handleEnemyShooting_fires_one[OF rnd0 h nv refl refl refl]
  show ?thesis
    using th n unfolding e r w d by (simp add: f del: One_nat_def)
qed

text \<open>
  C5 as stated fails when the cap on enemy bullets is reached. In \<open>saturatedScene\<close> the
  lock is free and three enemies are eligible, with 29 enemy bullets in flight: an enemy
  is selected, its row takes the lock and leaves the eligible rows, and no bullet is
  fired.
\<close>

theorem handleEnemyShooting_saturated_counterexample:
  "rowShooting saturatedScene = None \<and>
   length (enemiesReadyToShoot saturatedScene) = 3 \<and>
   length (enemyBullets saturatedScene) = 29 \<and>
   enemyBullets (handleEnemyShooting (\<lambda>_. 0) saturatedScene) = enemyBullets saturatedScene \<and>
   rowShooting (handleEnemyShooting (\<lambda>_. 0) saturatedScene) = Some 1 \<and>
   rowsCanShoot (handleEnemyShooting (\<lambda>_. 0) saturatedScene) = {0, 2}"
  by (auto simp add: saturatedScene_def volleyScene_def example_defs shooting_defs
        handleEnemyShooting_def Let_def)


section \<open>The shuffle reaches every arrangement, by one sequence of indices\<close>

text \<open>
  Round \<open>i\<close> of the shuffle draws the index \<open>j = \<lfloor>rnd k * (i + 1)\<rfloor>\<close> among \<open>0, \<dots>, i\<close>.
  Every arrangement of the list is the result for some random numbers, and for a list
  without repetitions the result determines every index drawn. So the arrangements
  correspond one to one to the sequences of indices: indices drawn uniformly and
  independently give every arrangement equally often.
\<close>

lemma shuffleFrom_length: "length (shuffleFrom rnd k i xs) = length xs"
  by (induction i arbitrary: k xs) (simp_all add: Let_def)

lemma random_index_le:
  assumes "randomOk rnd"
  shows "nat \<lfloor>rnd k * real (Suc i + 1)\<rfloor> \<le> Suc i"
  using random_index_lt[of "rnd k" "Suc i + 1"] assms by (simp add: randomOk_def)

lemma shuffleFrom_above:
  "randomOk rnd \<Longrightarrow> i < m \<Longrightarrow> shuffleFrom rnd k i xs ! m = xs ! m"
proof (induction i arbitrary: k xs)
  case 0
  then show ?case by simp
next
  case (Suc i)
  let ?j = "nat \<lfloor>rnd k * real (Suc i + 1)\<rfloor>"
  have j: "?j \<le> Suc i" using random_index_le[OF Suc.prems(1)] .
  have "shuffleFrom rnd k (Suc i) xs ! m
          = shuffleFrom rnd (Suc k) i (xs[Suc i := xs ! ?j, ?j := xs ! Suc i]) ! m"
    by (simp add: Let_def)
  also have "\<dots> = (xs[Suc i := xs ! ?j, ?j := xs ! Suc i]) ! m"
    using Suc.IH[OF Suc.prems(1), of "Suc k"] Suc.prems(2) by simp
  also have "\<dots> = xs ! m" using j Suc.prems(2) by simp
  finally show ?case .
qed

lemma swap_top:
  assumes "n < length xs"
  shows "(xs[n := xs ! j, j := xs ! n]) ! n = xs ! j"
  using assms by (cases "j = n") simp_all

lemma shuffleFrom_top:
  assumes "randomOk rnd" "Suc i < length xs"
  shows "shuffleFrom rnd k (Suc i) xs ! Suc i = xs ! nat \<lfloor>rnd k * real (Suc i + 1)\<rfloor>"
proof -
  let ?j = "nat \<lfloor>rnd k * real (Suc i + 1)\<rfloor>"
  have "shuffleFrom rnd k (Suc i) xs ! Suc i
          = shuffleFrom rnd (Suc k) i (xs[Suc i := xs ! ?j, ?j := xs ! Suc i]) ! Suc i"
    by (simp add: Let_def)
  also have "\<dots> = (xs[Suc i := xs ! ?j, ?j := xs ! Suc i]) ! Suc i"
    using shuffleFrom_above[OF assms(1), of i "Suc i"] by simp
  also have "\<dots> = xs ! ?j" using swap_top[OF assms(2)] .
  finally show ?thesis .
qed

lemma shuffleFrom_indices_unique:
  assumes "randomOk rnd" "randomOk rnd'"
  shows "distinct xs \<Longrightarrow> i < length xs \<Longrightarrow>
         shuffleFrom rnd k i xs = shuffleFrom rnd' k i xs \<Longrightarrow>
         \<forall>m<i. nat \<lfloor>rnd (k + m) * real (i - m + 1)\<rfloor> = nat \<lfloor>rnd' (k + m) * real (i - m + 1)\<rfloor>"
proof (induction i arbitrary: k xs)
  case 0
  then show ?case by simp
next
  case (Suc i)
  let ?j = "nat \<lfloor>rnd k * real (Suc i + 1)\<rfloor>"
  let ?j' = "nat \<lfloor>rnd' k * real (Suc i + 1)\<rfloor>"
  have j: "?j < length xs" "?j' < length xs"
    using random_index_le[OF assms(1), of k i] random_index_le[OF assms(2), of k i] Suc.prems(2)
    by linarith+
  have "xs ! ?j = xs ! ?j'"
    using shuffleFrom_top[OF assms(1) Suc.prems(2), of k]
          shuffleFrom_top[OF assms(2) Suc.prems(2), of k] Suc.prems(3) by simp
  then have jj: "?j = ?j'" using Suc.prems(1) j by (simp add: nth_eq_iff_index_eq)
  let ?ys = "xs[Suc i := xs ! ?j, ?j := xs ! Suc i]"
  have "mset ?ys = mset xs" using mset_swap[OF j(1) Suc.prems(2)] .
  then have d: "distinct ?ys" using Suc.prems(1) by (metis distinct_count_atmost_1 set_mset_mset)
  have l: "i < length ?ys" using Suc.prems(2) by simp
  have e: "shuffleFrom rnd (Suc k) i ?ys = shuffleFrom rnd' (Suc k) i ?ys"
    using Suc.prems(3) jj by (simp add: Let_def)
  note ih = Suc.IH[OF d l e]
  show ?case
  proof (intro allI impI)
    fix m assume m: "m < Suc i"
    show "nat \<lfloor>rnd (k + m) * real (Suc i - m + 1)\<rfloor> = nat \<lfloor>rnd' (k + m) * real (Suc i - m + 1)\<rfloor>"
    proof (cases m)
      case 0
      then show ?thesis using jj by simp
    next
      case (Suc m')
      then have "m' < i" using m by simp
      then show ?thesis using ih Suc by simp
    qed
  qed
qed

lemma take_swap_mset:
  assumes "j \<le> n" "n < length xs"
  shows "mset (take (Suc n) (xs[n := xs ! j, j := xs ! n])) = mset (take (Suc n) xs)"
proof -
  let ?p = "take (Suc n) xs"
  have l: "j < length ?p" "n < length ?p" using assms by simp_all
  have "take (Suc n) (xs[n := xs ! j, j := xs ! n]) = ?p[n := ?p ! j, j := ?p ! n]"
    using assms by (simp add: take_update_swap)
  then show ?thesis using mset_swap[OF l] by simp
qed

lemma shuffleFrom_reaches:
  "i < length xs \<Longrightarrow> length ys = length xs \<Longrightarrow>
   (\<forall>m. i < m \<and> m < length xs \<longrightarrow> ys ! m = xs ! m) \<Longrightarrow>
   mset (take (Suc i) ys) = mset (take (Suc i) xs) \<Longrightarrow>
   \<exists>rnd. randomOk rnd \<and> shuffleFrom rnd k i xs = ys"
proof (induction i arbitrary: k xs)
  case 0
  have "take (Suc 0) ys = [ys ! 0]" "take (Suc 0) xs = [xs ! 0]"
    using "0.prems"(1,2) by (simp_all add: take_Suc_conv_app_nth)
  then have "ys ! 0 = xs ! 0" using "0.prems"(4) by simp
  then have "ys ! m = xs ! m" if "m < length ys" for m
    using "0.prems"(2,3) that by (cases "m = 0") auto
  then have "ys = xs" using "0.prems"(2) by (intro nth_equalityI) auto
  moreover have "randomOk (\<lambda>_. 0)" by (simp add: randomOk_def)
  ultimately show ?case by (intro exI[of _ "\<lambda>_. 0"]) simp
next
  case (Suc i)
  have ly: "Suc i < length ys" using Suc.prems(1,2) by simp
  have ty: "take (Suc (Suc i)) ys = take (Suc i) ys @ [ys ! Suc i]"
    using ly by (simp add: take_Suc_conv_app_nth)
  then have "ys ! Suc i \<in> set (take (Suc (Suc i)) ys)" by simp
  then have "ys ! Suc i \<in> set (take (Suc (Suc i)) xs)"
    using Suc.prems(4) by (metis set_mset_mset)
  then obtain j where j: "j < Suc (Suc i)" "xs ! j = ys ! Suc i"
    using Suc.prems(1) by (auto simp add: in_set_conv_nth)
  then have jle: "j \<le> Suc i" by simp
  let ?xs' = "xs[Suc i := xs ! j, j := xs ! Suc i]"
  have top: "?xs' ! Suc i = ys ! Suc i" using swap_top[OF Suc.prems(1), of j] j(2) by simp
  have l': "i < length ?xs'" "length ys = length ?xs'" using Suc.prems(1,2) by simp_all
  have ag: "\<forall>m. i < m \<and> m < length ?xs' \<longrightarrow> ys ! m = ?xs' ! m"
  proof (intro allI impI)
    fix m assume m: "i < m \<and> m < length ?xs'"
    show "ys ! m = ?xs' ! m"
    proof (cases "m = Suc i")
      case True
      then show ?thesis using top by simp
    next
      case False
      then have "Suc i < m" using m by simp
      then show ?thesis using Suc.prems(3) m jle by simp
    qed
  qed
  have tx: "take (Suc (Suc i)) ?xs' = take (Suc i) ?xs' @ [?xs' ! Suc i]"
    using Suc.prems(1) by (simp add: take_Suc_conv_app_nth)
  have "mset (take (Suc (Suc i)) ?xs') = mset (take (Suc (Suc i)) ys)"
    using take_swap_mset[OF jle Suc.prems(1)] Suc.prems(4) by simp
  then have ms: "mset (take (Suc i) ys) = mset (take (Suc i) ?xs')"
    unfolding tx ty using top by simp
  from Suc.IH[OF l' ag ms, of "Suc k"] obtain rnd0 where
    r0: "randomOk rnd0" "shuffleFrom rnd0 (Suc k) i ?xs' = ys" by blast
  let ?rnd = "rnd0(k := real j / real (Suc i + 1))"
  have ok: "randomOk ?rnd"
    using r0(1) jle by (auto simp add: randomOk_def)
  have idx: "nat \<lfloor>?rnd k * real (Suc i + 1)\<rfloor> = j" by simp
  have "shuffleFrom ?rnd (Suc k) i ?xs' = shuffleFrom rnd0 (Suc k) i ?xs'"
    by (rule shuffleFrom_cong) simp
  then have "shuffleFrom ?rnd k (Suc i) xs = ys"
    using r0(2) idx by (simp add: Let_def del: fun_upd_apply)
  with ok show ?case by blast
qed

lemma shuffle_reaches:
  assumes "mset ys = mset xs"
  shows "\<exists>rnd. randomOk rnd \<and> shuffle rnd xs = ys"
proof (cases xs)
  case Nil
  then have "ys = []" using assms by simp
  moreover have "randomOk (\<lambda>_. 0)" by (simp add: randomOk_def)
  ultimately show ?thesis using Nil by (intro exI[of _ "\<lambda>_. 0"]) (simp add: shuffle_def)
next
  case (Cons a as)
  have l: "length ys = length xs" using assms by (metis size_mset)
  have i: "length xs - 1 < length xs" using Cons by simp
  have s: "Suc (length xs - 1) = length xs" using Cons by simp
  have "\<exists>rnd. randomOk rnd \<and> shuffleFrom rnd 0 (length xs - 1) xs = ys"
    using i l
  proof (rule shuffleFrom_reaches)
    show "\<forall>m. length xs - 1 < m \<and> m < length xs \<longrightarrow> ys ! m = xs ! m" by auto
    show "mset (take (Suc (length xs - 1)) ys) = mset (take (Suc (length xs - 1)) xs)"
      unfolding s using assms l by simp
  qed
  then show ?thesis by (simp add: shuffle_def)
qed

lemma shuffle_indices_unique:
  assumes "randomOk rnd" "randomOk rnd'" "distinct xs" "shuffle rnd xs = shuffle rnd' xs"
  shows "\<forall>m < length xs - 1.
           nat \<lfloor>rnd m * real (length xs - m)\<rfloor> = nat \<lfloor>rnd' m * real (length xs - m)\<rfloor>"
proof (cases xs)
  case Nil
  then show ?thesis by simp
next
  case (Cons a as)
  have i: "length xs - 1 < length xs" using Cons by simp
  have "\<forall>m<length xs - 1.
          nat \<lfloor>rnd (0 + m) * real (length xs - 1 - m + 1)\<rfloor>
          = nat \<lfloor>rnd' (0 + m) * real (length xs - 1 - m + 1)\<rfloor>"
    using shuffleFrom_indices_unique[OF assms(1,2,3) i, of 0] assms(4)
    by (simp add: shuffle_def)
  moreover have "length xs - 1 - m + 1 = length xs - m" if "m < length xs - 1" for m
    using that by simp
  ultimately show ?thesis by simp
qed

section \<open>Wave spawner: super enemies of a new row\<close>

lemma setInitialVelocity_proj:
  "isSuperAlien (setInitialVelocity st e) = isSuperAlien e"
  "row (setInitialVelocity st e) = row e"
  "enemy_x (setInitialVelocity st e) = enemy_x e"
  "enemy_y (setInitialVelocity st e) = enemy_y e"
  "isAlive (setInitialVelocity st e) = isAlive e"
  by (simp_all add: setInitialVelocity_def split: option.splits)

lemma newEnemy_proj:
  "isSuperAlien (newEnemy s i x y sa) = sa"
  "row (newEnemy s i x y sa) = i"
  "enemy_x (newEnemy s i x y sa) = x"
  "enemy_y (newEnemy s i x y sa) = y"
  "isAlive (newEnemy s i x y sa)"
  "enemy_active (newEnemy s i x y sa)"
  by (simp_all add: newEnemy_def)

lemma checkSpawnNewRow_enemies:
  assumes "lives s > 0" "lastSpawnedRowY s \<noteq> None"
    and "topmostEnemyY (enemies s) = Some topY" "shouldSpawn s topY"
  shows "\<exists>st. enemies (checkSpawnNewRow rnd s) =
           map (setInitialVelocity st)
             (enemies s @
              map (\<lambda>col. newEnemy s (nextRowIndex s)
                           (spawnStartX s topY + real col * ENEMY_SPACING) (topY - 50)
                           (col \<in> set (superAlienColumns rnd (numSuperAliens s))))
                  [0..<ENEMY_COLS])"
  using assms
  by (auto simp add: checkSpawnNewRow_def Let_def spawnEnemyRowCentered_def spawnPowerUp_frame
        newEnemy_def)

lemma superAlienColumns_props:
  assumes "randomOk rnd"
  shows "distinct (superAlienColumns rnd n)"
    and "set (superAlienColumns rnd n) \<subseteq> {0..<ENEMY_COLS}"
    and "length (superAlienColumns rnd n) = min n ENEMY_COLS"
proof -
  have d: "distinct (shuffle rnd [0..<ENEMY_COLS])"
    using shuffle_distinct[OF assms, of "[0..<ENEMY_COLS]"] by simp
  have st: "set (shuffle rnd [0..<ENEMY_COLS]) = {0..<ENEMY_COLS}"
    using shuffle_set[OF assms, of "[0..<ENEMY_COLS]"] by simp
  have l: "length (shuffle rnd [0..<ENEMY_COLS]) = ENEMY_COLS"
    using shuffle_length[OF assms, of "[0..<ENEMY_COLS]"] by simp
  show "distinct (superAlienColumns rnd n)"
    using d by (simp add: superAlienColumns_def Let_def)
  show "set (superAlienColumns rnd n) \<subseteq> {0..<ENEMY_COLS}"
    using set_take_subset[of n "shuffle rnd [0..<ENEMY_COLS]"] st
    by (simp add: superAlienColumns_def Let_def)
  show "length (superAlienColumns rnd n) = min n ENEMY_COLS"
    using l by (simp add: superAlienColumns_def Let_def min.commute)
qed

lemma count_members:
  assumes "distinct ps" "set ps \<subseteq> {0..<n}"
  shows "length (filter (\<lambda>c. c \<in> set ps) [0..<n]) = length ps"
proof -
  have "length (filter (\<lambda>c. c \<in> set ps) [0..<n]) = card ({c. c \<in> set ps} \<inter> set [0..<n])"
    by (rule distinct_length_filter) simp
  also have "{c. c \<in> set ps} \<inter> set [0..<n] = set ps" using assms(2) by auto
  also have "card (set ps) = length ps" using assms(1) by (rule distinct_card)
  finally show ?thesis .
qed

lemma count_non_members:
  assumes "distinct ps" "set ps \<subseteq> {0..<n}"
  shows "length (filter (\<lambda>c. c \<notin> set ps) [0..<n]) = n - length ps"
proof -
  have "length (filter (\<lambda>c. c \<in> set ps) [0..<n]) + length (filter (\<lambda>c. \<not> c \<in> set ps) [0..<n])
          = length [0..<n]"
    by (rule sum_length_filter_compl)
  then show ?thesis using count_members[OF assms] by simp
qed

lemma spawn_columns_distinct: "distinct (map (\<lambda>c. x0 + real c * ENEMY_SPACING) [0..<n])"
  by (simp add: distinct_map inj_on_def ENEMY_SPACING_def)

text \<open>
  C6. Let the random numbers lie in \<open>[0, 1)\<close> and let \<open>checkSpawnNewRow\<close> spawn a row (lives
  left, a topmost enemy at or below the spawn threshold that has advanced since the last
  check). The six enemies appended to \<open>enemies\<close> form the new row: they carry the next row
  index and stand at the six distinct positions \<open>startX + 50 c\<close>; the super enemies are
  those at the columns \<open>c\<close> among the first \<open>1 + spawnedRowCount div 5\<close> entries of the
  shuffled columns, which are a permutation of all six columns, so these entries are
  distinct; hence exactly \<open>min (1 + spawnedRowCount div 5) 6\<close> enemies of the row are
  super enemies and the others are regular. The enemies already present keep their kind.
  The shuffle is the Fisher-Yates shuffle: every arrangement of the six columns is the
  result for some random numbers, and the result determines the five indices drawn.
\<close>

theorem checkSpawnNewRow_super_aliens:
  assumes "randomOk rnd" and "lives s > 0" and "lastSpawnedRowY s \<noteq> None"
    and "topmostEnemyY (enemies s) = Some topY" and "shouldSpawn s topY"
  shows "length (drop (length (enemies s)) (enemies (checkSpawnNewRow rnd s))) = 6 \<and>
         length (filter isSuperAlien
                   (drop (length (enemies s)) (enemies (checkSpawnNewRow rnd s))))
           = min (1 + spawnedRowCount s div 5) 6 \<and>
         length (filter (\<lambda>e. \<not> isSuperAlien e)
                   (drop (length (enemies s)) (enemies (checkSpawnNewRow rnd s))))
           = 6 - min (1 + spawnedRowCount s div 5) 6 \<and>
         map isSuperAlien (drop (length (enemies s)) (enemies (checkSpawnNewRow rnd s)))
           = map (\<lambda>c. c \<in> set (take (1 + spawnedRowCount s div 5) (shuffle rnd [0..<6])))
                 [0..<6] \<and>
         mset (shuffle rnd [0..<6::nat]) = mset [0..<6] \<and>
         distinct (take (1 + spawnedRowCount s div 5) (shuffle rnd [0..<6::nat])) \<and>
         map enemy_x (drop (length (enemies s)) (enemies (checkSpawnNewRow rnd s)))
           = map (\<lambda>c. spawnStartX s topY + real c * 50) [0..<6] \<and>
         distinct (map enemy_x (drop (length (enemies s)) (enemies (checkSpawnNewRow rnd s)))) \<and>
         map row (drop (length (enemies s)) (enemies (checkSpawnNewRow rnd s)))
           = replicate 6 (nextRowIndex s) \<and>
         take (length (enemies s)) (map isSuperAlien (enemies (checkSpawnNewRow rnd s)))
           = map isSuperAlien (enemies s) \<and>
         (\<forall>p. mset p = mset [0..<6::nat] \<longrightarrow>
              (\<exists>rnd'. randomOk rnd' \<and> shuffle rnd' [0..<6] = p)) \<and>
         (\<forall>rnd'. randomOk rnd' \<and> shuffle rnd' [0..<6::nat] = shuffle rnd [0..<6] \<longrightarrow>
              (\<forall>m<5. nat \<lfloor>rnd' m * real (6 - m)\<rfloor> = nat \<lfloor>rnd m * real (6 - m)\<rfloor>))"
proof -
  let ?cols = "superAlienColumns rnd (numSuperAliens s)"
  let ?new = "map (\<lambda>col. newEnemy s (nextRowIndex s)
                           (spawnStartX s topY + real col * ENEMY_SPACING) (topY - 50)
                           (col \<in> set ?cols)) [0..<ENEMY_COLS]"
  from checkSpawnNewRow_enemies[OF assms(2-5), of rnd] obtain st where
    en: "enemies (checkSpawnNewRow rnd s) = map (setInitialVelocity st) (enemies s @ ?new)"
    by blast
  have dr: "drop (length (enemies s)) (enemies (checkSpawnNewRow rnd s))
              = map (setInitialVelocity st) ?new"
    unfolding en by simp
  have cols: "?cols = take (1 + spawnedRowCount s div 5) (shuffle rnd [0..<6])"
    by (simp add: superAlienColumns_def numSuperAliens_def ENEMY_COLS_def
          DIFFICULTY_SUPER_ALIENS_INCREASE_AFTER_LINES_def)
  note cp = superAlienColumns_props[OF assms(1), of "numSuperAliens s"]
  have six: "ENEMY_COLS = 6" by (simp add: ENEMY_COLS_def)
  have len: "length ?cols = min (1 + spawnedRowCount s div 5) 6"
    using cp(3) by (simp add: numSuperAliens_def six DIFFICULTY_SUPER_ALIENS_INCREASE_AFTER_LINES_def)
  have sup: "map isSuperAlien (map (setInitialVelocity st) ?new) = map (\<lambda>c. c \<in> set ?cols) [0..<6]"
    by (simp add: setInitialVelocity_proj newEnemy_proj comp_def six)
  have f1: "filter isSuperAlien (map (setInitialVelocity st) ?new)
              = map (setInitialVelocity st) (map (\<lambda>col. newEnemy s (nextRowIndex s)
                           (spawnStartX s topY + real col * ENEMY_SPACING) (topY - 50)
                           (col \<in> set ?cols)) (filter (\<lambda>c. c \<in> set ?cols) [0..<6]))"
    by (simp add: filter_map comp_def setInitialVelocity_proj newEnemy_proj six)
  have f2: "filter (\<lambda>e. \<not> isSuperAlien e) (map (setInitialVelocity st) ?new)
              = map (setInitialVelocity st) (map (\<lambda>col. newEnemy s (nextRowIndex s)
                           (spawnStartX s topY + real col * ENEMY_SPACING) (topY - 50)
                           (col \<in> set ?cols)) (filter (\<lambda>c. c \<notin> set ?cols) [0..<6]))"
    by (simp add: filter_map comp_def setInitialVelocity_proj newEnemy_proj six)
  have n1: "length (filter isSuperAlien (map (setInitialVelocity st) ?new))
              = min (1 + spawnedRowCount s div 5) 6"
    unfolding f1 using count_members[OF cp(1), of 6] cp(2) len by (simp add: six)
  have n2: "length (filter (\<lambda>e. \<not> isSuperAlien e) (map (setInitialVelocity st) ?new))
              = 6 - min (1 + spawnedRowCount s div 5) 6"
    unfolding f2 using count_non_members[OF cp(1), of 6] cp(2) len by (simp add: six)
  have xs: "map enemy_x (map (setInitialVelocity st) ?new)
              = map (\<lambda>c. spawnStartX s topY + real c * 50) [0..<6]"
    by (simp add: setInitialVelocity_proj newEnemy_proj comp_def six ENEMY_SPACING_def)
  have dx: "distinct (map (\<lambda>c. spawnStartX s topY + real c * 50) [0..<6::nat])"
    using spawn_columns_distinct[of "spawnStartX s topY" 6] by (simp add: ENEMY_SPACING_def)
  have rw: "map row (map (setInitialVelocity st) ?new) = replicate 6 (nextRowIndex s)"
    by (simp add: setInitialVelocity_proj newEnemy_proj comp_def six map_replicate_const)
  have old: "take (length (enemies s)) (map isSuperAlien (enemies (checkSpawnNewRow rnd s)))
               = map isSuperAlien (enemies s)"
    unfolding en by (simp add: setInitialVelocity_proj comp_def)
  have ms: "mset (shuffle rnd [0..<6::nat]) = mset [0..<6]"
    using shuffle_mset[OF assms(1)] by blast
  have dc: "distinct (take (1 + spawnedRowCount s div 5) (shuffle rnd [0..<6::nat]))"
    using cp(1) cols by simp
  let ?D = "drop (length (enemies s)) (enemies (checkSpawnNewRow rnd s))"
  have c1: "length ?D = 6" unfolding dr by (simp add: six)
  have c2: "length (filter isSuperAlien ?D) = min (1 + spawnedRowCount s div 5) 6"
    unfolding dr by (rule n1)
  have c3: "length (filter (\<lambda>e. \<not> isSuperAlien e) ?D) = 6 - min (1 + spawnedRowCount s div 5) 6"
    unfolding dr by (rule n2)
  have c4: "map isSuperAlien ?D
           = map (\<lambda>c. c \<in> set (take (1 + spawnedRowCount s div 5) (shuffle rnd [0..<6])))
                 [0..<6]"
    unfolding dr using sup unfolding cols .
  have c5: "map enemy_x ?D = map (\<lambda>c. spawnStartX s topY + real c * 50) [0..<6]"
    unfolding dr by (rule xs)
  have c6: "distinct (map enemy_x ?D)" unfolding c5 by (rule dx)
  have c7: "map row ?D = replicate 6 (nextRowIndex s)" unfolding dr by (rule rw)
  have c8: "\<forall>p. mset p = mset [0..<6::nat] \<longrightarrow>
              (\<exists>rnd'. randomOk rnd' \<and> shuffle rnd' [0..<6] = p)"
    using shuffle_reaches[of _ "[0..<6::nat]"] by blast
  have c9: "\<forall>rnd'. randomOk rnd' \<and> shuffle rnd' [0..<6::nat] = shuffle rnd [0..<6] \<longrightarrow>
              (\<forall>m<5. nat \<lfloor>rnd' m * real (6 - m)\<rfloor> = nat \<lfloor>rnd m * real (6 - m)\<rfloor>)"
  proof (rule allI, rule impI)
    fix rnd' assume a: "randomOk rnd' \<and> shuffle rnd' [0..<6::nat] = shuffle rnd [0..<6]"
    have "\<forall>m < length [0..<6::nat] - 1.
            nat \<lfloor>rnd' m * real (length [0..<6::nat] - m)\<rfloor>
            = nat \<lfloor>rnd m * real (length [0..<6::nat] - m)\<rfloor>"
      using a assms(1) by (intro shuffle_indices_unique) simp_all
    then show "\<forall>m<5. nat \<lfloor>rnd' m * real (6 - m)\<rfloor> = nat \<lfloor>rnd m * real (6 - m)\<rfloor>"
      by simp
  qed
  show ?thesis by (intro conjI; fact)
qed

theorem checkSpawnNewRow_super_aliens_witness:
  "spawnedRowCount quotaScene = 5 \<and>
   shuffle (\<lambda>_. 0) [0..<6::nat] = [1, 2, 3, 4, 5, 0] \<and>
   map isSuperAlien (drop 1 (enemies (checkSpawnNewRow (\<lambda>_. 0) quotaScene)))
     = [False, True, True, False, False, False] \<and>
   length (filter isSuperAlien (drop 1 (enemies (checkSpawnNewRow (\<lambda>_. 0) quotaScene)))) = 2 \<and>
   length (filter (\<lambda>e. \<not> isSuperAlien e)
             (drop 1 (enemies (checkSpawnNewRow (\<lambda>_. 0) quotaScene)))) = 4 \<and>
   map enemy_x (drop 1 (enemies (checkSpawnNewRow (\<lambda>_. 0) quotaScene)))
     = [100, 150, 200, 250, 300, 350]"
proof -
  have r: "randomOk (\<lambda>_. 0)" by (simp add: randomOk_def)
  have h: "lives quotaScene > 0" "lastSpawnedRowY quotaScene \<noteq> None"
    "topmostEnemyY (enemies quotaScene) = Some 50" "shouldSpawn quotaScene 50"
    by (simp_all add: quotaScene_def example_defs topmostEnemyY_def shouldSpawn_def)
  have v: "spawnedRowCount quotaScene = 5" "length (enemies quotaScene) = 1"
    by (simp_all add: quotaScene_def exampleGame_def)
  have sh: "shuffle (\<lambda>_. 0) [0..<6::nat] = [1, 2, 3, 4, 5, 0]"
    by (simp add: shuffle_def eval_nat_numeral upt_rec)
  have sx: "spawnStartX quotaScene 50 = 100"
    by (simp add: spawnStartX_def topRowLeftmost_def quotaScene_def example_defs Let_def)
  have u: "[0..<6::nat] = [0, 1, 2, 3, 4, 5]" by (simp add: upt_rec)
  show ?thesis
    using checkSpawnNewRow_super_aliens[OF r h] unfolding v sh sx
    by (simp add: u)
qed

section \<open>Every enemy belongs to a spawned row\<close>

text \<open>
  The property \<open>rowsBelowNext\<close> assumed of the scene in the statement on enemy shooting is
  kept by every event: a new row takes the index \<open>nextRowIndex\<close>, which is then advanced.
\<close>

lemma moveEnemy_row: "row (moveEnemy dn d sp e) = row e"
  by (simp add: moveEnemy_def Let_def split: option.splits)

lemma moveBody_row: "row (moveBody dt e) = row e"
  by (simp add: moveBody_def split: option.splits)

lemma destroyEnemy_rows: "map row (destroyEnemy e es) = map row es"
  by (induction es) (simp_all add: destroyed_def)

lemma handleEnemyMovement_rowsBelowNext:
  "rowsBelowNext s \<Longrightarrow> rowsBelowNext (handleEnemyMovement s)"
  by (cases "enemies s = []")
     (auto simp add: rowsBelowNext_def handleEnemyMovement_def Let_def moveEnemy_row)

lemma checkSpawnNewRow_rowsBelowNext:
  assumes "rowsBelowNext s"
  shows "rowsBelowNext (checkSpawnNewRow rnd s)"
proof (cases "checkSpawnNewRow rnd s = s")
  case True
  with assms show ?thesis by simp
next
  case False
  then obtain topY where sp: "lives s > 0" "lastSpawnedRowY s \<noteq> None"
    "topmostEnemyY (enemies s) = Some topY" "shouldSpawn s topY"
    by (auto simp add: checkSpawnNewRow_def split: if_splits option.splits)
  from checkSpawnNewRow_enemies[OF sp, of rnd] obtain st where
    en: "enemies (checkSpawnNewRow rnd s) =
           map (setInitialVelocity st)
             (enemies s @
              map (\<lambda>col. newEnemy s (nextRowIndex s)
                           (spawnStartX s topY + real col * ENEMY_SPACING) (topY - 50)
                           (col \<in> set (superAlienColumns rnd (numSuperAliens s))))
                  [0..<ENEMY_COLS])" by blast
  have nx: "nextRowIndex (checkSpawnNewRow rnd s) = nextRowIndex s + 1"
    using sp by (simp add: checkSpawnNewRow_def Let_def spawnPowerUp_frame
                   spawnEnemyRowCentered_frame)
  show ?thesis
    unfolding rowsBelowNext_def en nx using assms
    by (auto simp add: rowsBelowNext_def setInitialVelocity_proj newEnemy_proj)
qed

lemma update_rowsBelowNext:
  assumes "rowsBelowNext s"
  shows "rowsBelowNext (update p r1 r2 s)"
proof (cases "gameActive s")
  case False
  with assms show ?thesis by (simp add: update_def)
next
  case True
  let ?a = "handlePlayerShooting (handlePlayerMovement p s)"
  have "rowsBelowNext ?a" using assms by (simp add: rowsBelowNext_def rows_frame)
  then have "rowsBelowNext (handleEnemyMovement ?a)" by (rule handleEnemyMovement_rowsBelowNext)
  then have "rowsBelowNext (cleanupBullets (handleEnemyShooting r1 (handleEnemyMovement ?a)))"
    by (simp add: rowsBelowNext_def rows_frame handleEnemyShooting_rows)
  then have "rowsBelowNext (checkSpawnNewRow r2
               (cleanupBullets (handleEnemyShooting r1 (handleEnemyMovement ?a))))"
    by (rule checkSpawnNewRow_rowsBelowNext)
  then show ?thesis using True by (simp add: update_def rowsBelowNext_def rows_frame)
qed

lemma step_rowsBelowNext: "rowsBelowNext s \<Longrightarrow> rowsBelowNext (step s ev)"
proof (cases ev)
  case (ClockUpdate t)
  assume "rowsBelowNext s"
  then show ?thesis using ClockUpdate by (simp add: rowsBelowNext_def clockUpdate_rows)
next
  case (Update p r1 r2)
  assume "rowsBelowNext s"
  then show ?thesis using Update update_rowsBelowNext by simp
next
  case (PhysicsStep dt)
  assume "rowsBelowNext s"
  then show ?thesis using PhysicsStep
    by (auto simp add: rowsBelowNext_def physicsStep_def moveBody_row)
next
  case (HitEnemy b e)
  assume a: "rowsBelowNext s"
  have m: "map row (enemies (step s ev)) = map row (enemies s)"
    using HitEnemy by (simp add: hitEnemy_overlap_enemies destroyEnemy_rows)
  have n: "nextRowIndex (step s ev) = nextRowIndex s"
    using HitEnemy by (simp add: rows_frame)
  have "\<forall>r \<in> set (map row (enemies (step s ev))). r < nextRowIndex (step s ev)"
    unfolding m n using a by (simp add: rowsBelowNext_def)
  then show ?thesis by (simp add: rowsBelowNext_def)
next
  case (HitPlayer b)
  assume "rowsBelowNext s"
  then show ?thesis using HitPlayer
    by (simp add: rowsBelowNext_def step_hit_frame del: step.simps)
next
  case (CollectPowerUp pu)
  assume "rowsBelowNext s"
  then show ?thesis using CollectPowerUp by (simp add: rowsBelowNext_def rows_frame)
qed

lemma run_rowsBelowNext: "rowsBelowNext s \<Longrightarrow> rowsBelowNext (run s evs)"
proof (induction evs arbitrary: s)
  case Nil
  then show ?case by (simp add: run_def)
next
  case (Cons ev evs)
  have "run s (ev # evs) = run (step s ev) evs" by (simp add: run_def)
  then show ?case using Cons.IH[OF step_rowsBelowNext[OF Cons.prems]] by simp
qed

end
